(* ===== verification/IDB_Prelude.thy ===== *)
theory IDB_Prelude
  imports Main "HOL-Library.AList" "HOL-Library.List_Lexorder" "HOL-Library.Char_ord"
begin

text \<open>
  Shared vocabulary of the development: heap addresses, the collections of rewrite
  rules the component theories feed, and generic facts on lists and association lists
  that the models of the promise heap, the request table and the host's catalogue
  all use.
\<close>

type_synonym addr = nat

named_theorems world_simps \<open>how the world's update operations read back\<close>
named_theorems wrapper_simps \<open>unfolding of the wrapper methods\<close>

text \<open>
  The JavaScript heap objects the model tracks (promises, requests, transactions,
  connections) live in lists indexed by their address; allocation appends, so a new
  object gets the address \<open>length xs\<close> and older addresses keep their contents.
\<close>

definition alloc :: "'a \<Rightarrow> 'a list \<Rightarrow> addr \<times> 'a list" where
  "alloc x xs = (length xs, xs @ [x])"

definition upd_at :: "addr \<Rightarrow> ('a \<Rightarrow> 'a) \<Rightarrow> 'a list \<Rightarrow> 'a list" where
  "upd_at i f xs = (if i < length xs then xs[i := f (xs ! i)] else xs)"

lemma alloc_fresh [simp]:
  "alloc x xs = (a, ys) \<Longrightarrow> a = length xs \<and> ys ! a = x \<and> length ys = Suc (length xs)"
  by (auto simp: alloc_def)

lemma alloc_keeps [simp]:
  "alloc x xs = (a, ys) \<Longrightarrow> i < length xs \<Longrightarrow> ys ! i = xs ! i"
  by (auto simp: alloc_def nth_append)

lemma length_upd_at [simp]: "length (upd_at i f xs) = length xs"
  by (simp add: upd_at_def)

lemma nth_upd_at [simp]:
  "upd_at i f xs ! j = (if i = j \<and> j < length xs then f (xs ! j) else xs ! j)"
  by (auto simp: upd_at_def)

lemma upd_at_beyond [simp]: "length xs \<le> i \<Longrightarrow> upd_at i f xs = xs"
  by (simp add: upd_at_def)

lemma upd_at_append_last [simp]:
  "upd_at (length xs) f (xs @ [x]) = xs @ [f x]"
  by (simp add: upd_at_def)

lemma upd_at_append_old:
  "i < length xs \<Longrightarrow> upd_at i f (xs @ [x]) = upd_at i f xs @ [x]"
  by (simp add: upd_at_def list_update_append nth_append)

lemma map_of_update_same [simp]: "map_of (AList.update k v al) k = Some v"
  by (simp add: update_conv')

lemma map_of_update_other [simp]:
  "k' \<noteq> k \<Longrightarrow> map_of (AList.update k v al) k' = map_of al k'"
  by (simp add: update_conv')

text \<open>Updating an association list with the entries of another, in order.\<close>

lemma map_of_fold_update:
  "map_of (fold (\<lambda>(n, x) al. AList.update n x al) bk al) = map_of al ++ map_of (rev bk)"
  by (induction bk arbitrary: al) (auto simp: update_conv' map_add_upd_left fun_eq_iff map_add_def split: option.split)

lemma map_add_left_None [simp]: "n k = None \<Longrightarrow> (m ++ n) k = m k"
  by (simp add: map_add_def)

lemma update_append_fresh:
  "map_of xs k = None \<Longrightarrow> AList.update k v (xs @ [(k, v')]) = xs @ [(k, v)]"
  by (induction xs) (auto simp: update_conv')

text \<open>Properties of every element kept by the list updates the model uses.\<close>

lemma list_all_update: "P (k, v) \<Longrightarrow> list_all P al \<Longrightarrow> list_all P (AList.update k v al)"
  by (induction al) auto

lemma list_all_delete: "list_all P al \<Longrightarrow> list_all P (AList.delete k al)"
  by (simp add: AList.delete_eq list_all_iff)

lemma list_all_fold_update:
  "list_all P bk \<Longrightarrow> list_all P al \<Longrightarrow> list_all P (fold (\<lambda>(n, x) al. AList.update n x al) bk al)"
  by (induction bk arbitrary: al) (auto intro: list_all_update)

lemma list_all_upd_at: "(\<And>x. P x \<Longrightarrow> P (f x)) \<Longrightarrow> list_all P xs \<Longrightarrow> list_all P (upd_at i f xs)"
proof -
  assume f: "\<And>x. P x \<Longrightarrow> P (f x)" and xs: "list_all P xs"
  show ?thesis
  proof (cases "i < length xs")
    case True
    then have "P (f (xs ! i))" using f xs by (simp add: list_all_iff)
    then show ?thesis
      using xs set_update_subset_insert [of xs i "f (xs ! i)"] True by (auto simp: upd_at_def list_all_iff)
  qed (simp add: upd_at_def xs)
qed

text \<open>A view of a list of objects that an update at one address or a fold does not change.\<close>

lemma map_upd_at_keep: "(\<And>x. g (f x) = g x) \<Longrightarrow> map g (upd_at i f xs) = map g xs"
  by (auto simp: upd_at_def map_update) (metis list_update_id nth_map)

lemma fold_keeps: "(\<And>x w. g (f x w) = g w) \<Longrightarrow> g (fold f xs w) = g w"
  by (induction xs arbitrary: w) simp_all

end
