(* ===== verification/IDB_Data.thy ===== *)
theory IDB_Data
  imports IDB_Prelude
begin

text \<open>
  The data the wrappers pass through without looking at it: IndexedDB keys
  (\<open>IDBValidKey\<close>) with the host's key order, JavaScript values, key ranges
  (\<open>IDBKeyRange\<close>), the query argument of the read operations, and the
  \<open>DOMException\<close> names the host raises. These belong to the host platform; the
  wrappers' method signatures in \<open>src/src/index.ts\<close> quantify over them.
\<close>

section \<open>Keys and their order\<close>

text \<open>
  Number and string keys. The host orders keys by type first (numbers before
  strings) and then by value; strings compare code unit by code unit, which is the
  lexicographic order on character lists.
\<close>

datatype key = KNum int | KStr string

instantiation key :: linorder
begin

fun less_eq_key :: "key \<Rightarrow> key \<Rightarrow> bool" where
  "less_eq_key (KNum a) (KNum b) = (a \<le> b)"
| "less_eq_key (KNum a) (KStr t) = True"
| "less_eq_key (KStr s) (KNum b) = False"
| "less_eq_key (KStr s) (KStr t) = (s \<le> t)"

fun less_key :: "key \<Rightarrow> key \<Rightarrow> bool" where
  "less_key (KNum a) (KNum b) = (a < b)"
| "less_key (KNum a) (KStr t) = True"
| "less_key (KStr s) (KNum b) = False"
| "less_key (KStr s) (KStr t) = (s < t)"

instance
proof
  fix x y z :: key
  show "(x < y) = (x \<le> y \<and> \<not> y \<le> x)"
    by (cases x; cases y) auto
  show "x \<le> x"
    by (cases x) auto
  show "x \<le> y \<Longrightarrow> y \<le> z \<Longrightarrow> x \<le> z"
    by (cases x; cases y; cases z) auto
  show "x \<le> y \<Longrightarrow> y \<le> x \<Longrightarrow> x = y"
    by (cases x; cases y) auto
  show "x \<le> y \<or> y \<le> x"
    by (cases x; cases y) auto
qed

end

section \<open>JavaScript values\<close>

text \<open>
  The values stored in object stores and returned by requests. Objects are
  association lists of properties (the first binding of a name is the property).
\<close>

datatype jsval =
    JUndefined
  | JNull
  | JBool bool
  | JNum int
  | JStr string
  | JList "jsval list"
  | JObj "(string \<times> jsval) list"

primrec key_value :: "key \<Rightarrow> jsval" where
  "key_value (KNum n) = JNum n"
| "key_value (KStr s) = JStr s"

text \<open>The host's "convert a value to a key": numbers and strings are keys.\<close>

fun value_key :: "jsval \<Rightarrow> key option" where
  "value_key (JNum n) = Some (KNum n)"
| "value_key (JStr s) = Some (KStr s)"
| "value_key _ = None"

text \<open>
  Key paths are single property names. Evaluating one on a value reads the property
  of an object; injecting a generated key sets it.
\<close>

fun eval_key_path :: "string \<Rightarrow> jsval \<Rightarrow> jsval option" where
  "eval_key_path p (JObj ps) = map_of ps p"
| "eval_key_path p _ = None"

fun inject_key :: "string \<Rightarrow> key \<Rightarrow> jsval \<Rightarrow> jsval" where
  "inject_key p k (JObj ps) = JObj (AList.update p (key_value k) ps)"
| "inject_key p k v = v"

definition extract_key :: "string \<Rightarrow> jsval \<Rightarrow> key option" where
  "extract_key p v = (case eval_key_path p v of Some x \<Rightarrow> value_key x | None \<Rightarrow> None)"

section \<open>Key ranges and queries\<close>

record key_range =
  kr_lower :: "key option"
  kr_upper :: "key option"
  kr_lowerOpen :: bool
  kr_upperOpen :: bool

definition in_range :: "key_range \<Rightarrow> key \<Rightarrow> bool" where
  "in_range r k \<longleftrightarrow>
     (case kr_lower r of None \<Rightarrow> True
      | Some l \<Rightarrow> (if kr_lowerOpen r then l < k else l \<le> k)) \<and>
     (case kr_upper r of None \<Rightarrow> True
      | Some u \<Rightarrow> (if kr_upperOpen r then k < u else k \<le> u))"

text \<open>
  The query argument \<open>IDBValidKey | IDBKeyRange | null | undefined\<close> of the read
  and delete methods. \<open>QNone\<close> is \<open>undefined\<close> or \<open>null\<close>: "every record" where
  the method allows it, a \<open>DataError\<close> where it needs a key.
\<close>

datatype query = QNone | QKey key | QRange key_range

fun in_query :: "query \<Rightarrow> key \<Rightarrow> bool" where
  "in_query QNone k = True"
| "in_query (QKey k') k = (k = k')"
| "in_query (QRange r) k = in_range r k"

section \<open>Host exceptions\<close>

text \<open>The \<open>DOMException\<close> names (and \<open>TypeError\<close>) the host raises.\<close>

datatype dom_error =
    DataError
  | ConstraintError
  | TransactionInactiveError
  | ReadOnlyError
  | NotFoundError
  | InvalidStateError
  | InvalidAccessError
  | VersionError
  | AbortError
  | TypeError

lemma value_key_key_value [simp]: "value_key (key_value k) = Some k"
  by (cases k) simp_all

lemma value_key_Some: "value_key v = Some k \<Longrightarrow> v = key_value k"
  by (cases v rule: value_key.cases) auto

lemma extract_inject_key [simp]: "extract_key p (inject_key p k (JObj ps)) = Some k"
  by (simp add: extract_key_def update_conv')

lemma KNum_less_KStr [simp]: "KNum n < KStr s"
  by simp

end
