(* ===== verification/IDB_Store.thy ===== *)
theory IDB_Store
  imports IDB_Data "HOL-Library.Product_Lexorder" "HOL-Library.Sublist"
begin

text \<open>
  The host's object stores, the storage the wrappers forward to (the IndexedDB
  specification's "object store" and "index" and its retrieval and storage
  algorithms). An object store holds its records sorted by key; an index is derived
  from the records. The read algorithms return the JavaScript value the request's
  \<open>result\<close> holds; the write algorithm "store a record into an object store"
  returns the record's key or the \<open>ConstraintError\<close> the request fails with.
\<close>

record index_def =
  ix_keyPath :: string
  ix_unique :: bool
  ix_multiEntry :: bool

record object_store =
  os_keyPath :: "string option"
  os_generator :: "int option"
  os_records :: "(key \<times> jsval) list"
  os_indexes :: "(string \<times> index_def) list"

text \<open>The largest key a key generator hands out: \<open>2^53\<close>.\<close>

definition max_generated_key :: int where
  "max_generated_key = 2 ^ 53"

definition empty_store :: "string option \<Rightarrow> bool \<Rightarrow> object_store" where
  "empty_store kp auto =
     \<lparr>os_keyPath = kp, os_generator = (if auto then Some 1 else None),
      os_records = [], os_indexes = []\<rparr>"

section \<open>Records sorted by key\<close>

fun ins_record :: "key \<Rightarrow> jsval \<Rightarrow> (key \<times> jsval) list \<Rightarrow> (key \<times> jsval) list" where
  "ins_record k v [] = [(k, v)]"
| "ins_record k v ((k', v') # rs) =
     (if k < k' then (k, v) # (k', v') # rs
      else if k = k' then (k, v) # rs
      else (k', v') # ins_record k v rs)"

definition records_wf :: "(key \<times> jsval) list \<Rightarrow> bool" where
  "records_wf rs \<longleftrightarrow> sorted_wrt (\<lambda>a b. fst a < fst b) rs"

definition store_wf :: "object_store \<Rightarrow> bool" where
  "store_wf s \<longleftrightarrow> records_wf (os_records s)"

section \<open>Index records\<close>

text \<open>
  The index keys of a value: the value at the index's key path when it is a key; for
  a multi-entry index whose key path yields an array, each distinct key of the array.
\<close>

definition index_keys :: "index_def \<Rightarrow> jsval \<Rightarrow> key list" where
  "index_keys ix v =
     (case eval_key_path (ix_keyPath ix) v of
        None \<Rightarrow> []
      | Some (JList xs) \<Rightarrow> (if ix_multiEntry ix then remdups (List.map_filter value_key xs) else [])
      | Some x \<Rightarrow> (case value_key x of Some k \<Rightarrow> [k] | None \<Rightarrow> []))"

text \<open>
  A source of records, read in its natural order: triples (ordering key, primary
  key, value). For the store the ordering key is the primary key; for an index it is
  the index key, ties broken by primary key.
\<close>

type_synonym entry = "key \<times> key \<times> jsval"

definition store_entries :: "object_store \<Rightarrow> entry list" where
  "store_entries s = map (\<lambda>(k, v). (k, k, v)) (os_records s)"

definition index_entries :: "index_def \<Rightarrow> object_store \<Rightarrow> entry list" where
  "index_entries ix s =
     sort_key (\<lambda>(ik, pk, v). (ik, pk))
       (concat (map (\<lambda>(pk, v). map (\<lambda>ik. (ik, pk, v)) (index_keys ix v)) (os_records s)))"

section \<open>Retrieval\<close>

datatype read_op = RCount | RGet | RGetAll nat | RGetAllKeys nat | RGetKey

definition matching :: "query \<Rightarrow> entry list \<Rightarrow> entry list" where
  "matching q es = filter (\<lambda>(k, pk, v). in_query q k) es"

text \<open>A count of 0 (or none) means no limit, as in \<open>getAll(query, count)\<close>.\<close>

definition limit_count :: "nat \<Rightarrow> 'a list \<Rightarrow> 'a list" where
  "limit_count n xs = (if n = 0 then xs else take n xs)"

fun exec_read :: "read_op \<Rightarrow> query \<Rightarrow> entry list \<Rightarrow> jsval" where
  "exec_read RCount q es = JNum (int (length (matching q es)))"
| "exec_read RGet q es =
     (case matching q es of [] \<Rightarrow> JUndefined | (k, pk, v) # _ \<Rightarrow> v)"
| "exec_read (RGetAll n) q es =
     JList (map (\<lambda>(k, pk, v). v) (limit_count n (matching q es)))"
| "exec_read (RGetAllKeys n) q es =
     JList (map (\<lambda>(k, pk, v). key_value pk) (limit_count n (matching q es)))"
| "exec_read RGetKey q es =
     (case matching q es of [] \<Rightarrow> JUndefined | (k, pk, v) # _ \<Rightarrow> key_value pk)"

section \<open>Storage\<close>

definition generate_key :: "object_store \<Rightarrow> (key \<times> object_store) option" where
  "generate_key s =
     (case os_generator s of
        None \<Rightarrow> None
      | Some c \<Rightarrow> (if max_generated_key < c then None
                  else Some (KNum c, s\<lparr>os_generator := Some (c + 1)\<rparr>)))"

definition possibly_update_generator :: "key \<Rightarrow> object_store \<Rightarrow> object_store" where
  "possibly_update_generator k s =
     (case (os_generator s, k) of
        (Some c, KNum n) \<Rightarrow>
          (let v = min n max_generated_key in
           if c \<le> v then s\<lparr>os_generator := Some (v + 1)\<rparr> else s)
      | _ \<Rightarrow> s)"

text \<open>A unique index refuses a second record with the same index key.\<close>

definition unique_ok :: "object_store \<Rightarrow> key \<Rightarrow> jsval \<Rightarrow> bool" where
  "unique_ok s k v =
     list_all (\<lambda>(n, ix). \<not> ix_unique ix \<or>
        list_all (\<lambda>(pk, w). pk = k \<or> set (index_keys ix w) \<inter> set (index_keys ix v) = {})
          (os_records s))
       (os_indexes s)"

text \<open>
  "Store a record into an object store", given the key the method's synchronous
  steps determined (\<open>None\<close>: the key generator supplies it). \<open>no_overwrite\<close> is
  set by \<open>add\<close> and clear for \<open>put\<close>.
\<close>

definition store_record ::
  "bool \<Rightarrow> jsval \<Rightarrow> key option \<Rightarrow> object_store \<Rightarrow> dom_error + (key \<times> object_store)" where
  "store_record no_overwrite v ko s =
     (let g = (case ko of
                 None \<Rightarrow> (case generate_key s of
                            None \<Rightarrow> None
                          | Some (k, s1) \<Rightarrow>
                              Some (k, (case os_keyPath s of Some p \<Rightarrow> inject_key p k v | None \<Rightarrow> v), s1))
               | Some k \<Rightarrow> Some (k, v, possibly_update_generator k s))
      in case g of
           None \<Rightarrow> Inl ConstraintError
         | Some (k, v', s1) \<Rightarrow>
             (if no_overwrite \<and> map_of (os_records s1) k \<noteq> None then Inl ConstraintError
              else if \<not> unique_ok s1 k v' then Inl ConstraintError
              else Inr (k, s1\<lparr>os_records := ins_record k v' (os_records s1)\<rparr>)))"

definition delete_records :: "query \<Rightarrow> object_store \<Rightarrow> object_store" where
  "delete_records q s = s\<lparr>os_records := filter (\<lambda>(k, v). \<not> in_query q k) (os_records s)\<rparr>"

definition clear_records :: "object_store \<Rightarrow> object_store" where
  "clear_records s = s\<lparr>os_records := []\<rparr>"


lemma set_ins_record: "set (ins_record k v rs) \<subseteq> insert (k, v) (set rs)"
  by (induction rs) (auto split: if_splits)

lemma map_of_ins_record [simp]: "map_of (ins_record k v rs) = (map_of rs)(k \<mapsto> v)"
  by (induction rs) (auto simp: fun_eq_iff)

lemma records_wf_Cons: "records_wf (r # rs) \<longleftrightarrow> (\<forall>x \<in> set rs. fst r < fst x) \<and> records_wf rs"
  by (simp add: records_wf_def)

lemma records_wf_ins_record:
  "records_wf rs \<Longrightarrow> records_wf (ins_record k v rs)"
proof (induction rs)
  case Nil
  then show ?case by (simp add: records_wf_def)
next
  case (Cons r rs)
  obtain k' v' where r: "r = (k', v')" by fastforce
  have "\<forall>x \<in> set (ins_record k v rs). k' < fst x" if "k' < k"
    using Cons.prems that set_ins_record [of k v rs] r
    by (fastforce simp: records_wf_Cons)
  with Cons r show ?case
    by (auto simp: records_wf_Cons less_le_trans not_less_iff_gr_or_eq)
qed

lemma records_wf_distinct: "records_wf rs \<Longrightarrow> distinct (map fst rs)"
  by (induction rs) (auto simp: records_wf_Cons)

lemma limit_count_length: "0 < n \<Longrightarrow> length (limit_count n xs) \<le> n"
  by (simp add: limit_count_def)


lemma records_wf_filter: "records_wf rs \<Longrightarrow> records_wf (filter P rs)"
  by (simp add: records_wf_def sorted_wrt_filter)

lemma filter_key_distinct:
  "distinct (map fst rs) \<Longrightarrow>
     filter (\<lambda>(k', v). k' = k) rs = (case map_of rs k of None \<Rightarrow> [] | Some v \<Rightarrow> [(k, v)])"
  by (induction rs) (force split: option.splits simp: filter_empty_conv)+

text \<open>In a well-formed store the records matching one key are the record at it.\<close>

lemma matching_key_store:
  assumes "store_wf s"
  shows "matching (QKey k) (store_entries s) =
           (case map_of (os_records s) k of None \<Rightarrow> [] | Some v \<Rightarrow> [(k, k, v)])"
proof -
  have "distinct (map fst (os_records s))"
    using assms by (simp add: store_wf_def records_wf_distinct)
  from filter_key_distinct [OF this, of k] show ?thesis
    by (auto simp: matching_def store_entries_def filter_map comp_def case_prod_beta'
        split: option.splits)
qed

lemma store_wf_delete [simp]: "store_wf s \<Longrightarrow> store_wf (delete_records q s)"
  by (simp add: store_wf_def delete_records_def records_wf_filter)

lemma store_wf_clear [simp]: "store_wf (clear_records s)"
  by (simp add: store_wf_def clear_records_def records_wf_def)

lemma store_record_wf:
  "store_record b v ko s = Inr (k, s') \<Longrightarrow> store_wf s \<Longrightarrow> store_wf s'"
  by (auto simp: store_record_def store_wf_def generate_key_def possibly_update_generator_def
      Let_def records_wf_ins_record
      split: option.splits if_splits key.splits prod.splits)

lemma store_record_stores:
  "store_record b v ko s = Inr (k, s') \<Longrightarrow> \<exists>v'. map_of (os_records s') k = Some v'"
  by (auto simp: store_record_def Let_def split: option.splits if_splits prod.splits)


lemma possibly_update_generator_keeps [simp]:
  "os_records (possibly_update_generator k s) = os_records s"
  "os_indexes (possibly_update_generator k s) = os_indexes s"
  "os_keyPath (possibly_update_generator k s) = os_keyPath s"
  by (auto simp: possibly_update_generator_def Let_def split: option.splits key.splits)

lemma unique_ok_generator [simp]:
  "unique_ok (possibly_update_generator k s) k' v = unique_ok s k' v"
  by (simp add: unique_ok_def)

text \<open>"Store a record" with an explicit key.\<close>

lemma store_record_key:
  "store_record b v (Some k) s =
     (if b \<and> map_of (os_records s) k \<noteq> None then Inl ConstraintError
      else if \<not> unique_ok s k v then Inl ConstraintError
      else Inr (k, (possibly_update_generator k s)\<lparr>os_records := ins_record k v (os_records s)\<rparr>))"
  by (simp add: store_record_def)

lemma exec_read_get_key:
  "store_wf s \<Longrightarrow> exec_read RGet (QKey k) (store_entries s) =
     (case map_of (os_records s) k of None \<Rightarrow> JUndefined | Some v \<Rightarrow> v)"
  by (simp add: matching_key_store split: option.splits)

lemma delete_records_missing:
  "map_of (os_records os) k = None \<Longrightarrow> delete_records (QKey k) os = os"
proof -
  assume "map_of (os_records os) k = None"
  then have "filter (\<lambda>(k', v). \<not> in_query (QKey k) k') (os_records os) = os_records os"
    by (force simp: map_of_eq_None_iff filter_id_conv)
  then show ?thesis
    by (simp add: delete_records_def)
qed

text \<open>
  What a bounded read returns: a subsequence of the source, in its order, every
  entry matching the query.
\<close>

lemma sorted_limit_matching:
  "sorted (map f es) \<Longrightarrow> sorted (map f (limit_count n (matching q es)))"
  by (simp add: limit_count_def matching_def sorted_wrt_map sorted_wrt_filter sorted_wrt_take)

lemma subseq_limit_matching: "subseq (limit_count n (matching q es)) es"
proof -
  have "subseq (take n (matching q es)) (matching q es)"
    by (rule prefix_imp_subseq) (rule take_is_prefix)
  moreover have "subseq (matching q es) es"
    by (simp add: matching_def)
  ultimately show ?thesis
    by (auto simp: limit_count_def intro: subseq_order.trans)
qed

lemma limit_matching_in_query:
  "list_all (\<lambda>(k, pk, v). in_query q k) (limit_count n (matching q es))"
  by (auto simp: limit_count_def matching_def list_all_iff dest: in_set_takeD)

lemma sorted_index_entries: "sorted (map (\<lambda>(ik, pk, v). (ik, pk)) (index_entries d os))"
  by (simp add: index_entries_def)

text \<open>"Store a record" with the key generator, within its bound.\<close>

lemma store_record_generated:
  assumes "os_generator os = Some c" "c \<le> max_generated_key" "os_keyPath os = None"
    "map_of (os_records os) (KNum c) = None" "unique_ok os (KNum c) v"
  shows "store_record True v None os =
           Inr (KNum c, os\<lparr>os_generator := Some (c + 1), os_records := ins_record (KNum c) v (os_records os)\<rparr>)"
  using assms by (simp add: store_record_def generate_key_def unique_ok_def)

end
