(* ===== verification/IDB_World.thy ===== *)
theory IDB_World
  imports IDB_Store
begin

text \<open>
  The state the wrappers of \<open>src/src/index.ts\<close> act on: the host's databases,
  connections, transactions and requests, the JavaScript promises the wrappers
  create, and a log of the caller's callbacks the host invoked. Heap objects are
  addressed by their position in their list (\<open>IDB_Prelude.alloc\<close>).
  This theory also declares the wrapper classes and the event-listener closures of
  the source as data, since the requests and promises of the world refer to them.
\<close>

section \<open>Host handles\<close>

text \<open>
  An \<open>IDBObjectStore\<close> handle names its transaction and its store; an
  \<open>IDBIndex\<close> handle adds the index name.
\<close>

datatype store_handle = StoreHandle addr string

datatype index_handle = IndexHandle addr string string

section \<open>The wrapper classes\<close>

text \<open>
  Each class of the source is a constructor around the one private handle it owns
  (\<open>private index: IDBIndex\<close> and its constructor, and so on). Nothing else is
  stored in a wrapper.
\<close>

datatype promised_index = PromisedIndexedDbIndex index_handle

datatype promised_store = PromisedIndexedDbObjectStore store_handle

datatype promised_txn = PromisedIndexedDbTransaction addr

datatype promised_db = PromisedIndexedDb addr

text \<open>\<open>TransactionEventType = 'abort' | 'complete' | 'error'\<close>.\<close>

datatype tx_event = TxAbort | TxComplete | TxError

section \<open>Callbacks of the caller\<close>

text \<open>
  A callback the caller hands to \<open>addEventListener\<close> of a transaction wrapper: an
  identity, and whether it calls \<open>preventDefault()\<close> on the event. Its other
  effects are the caller's and are recorded in the world's log only.
  A migration callback is the list of schema changes it makes on the raw database
  handle for given old and new versions.
\<close>

datatype callback = Callback (cb_id: nat) (cb_cancels: bool)

datatype schema_op =
    CreateObjectStore string "string option" bool
  | DeleteObjectStore string
  | CreateIndex string string string bool bool

type_synonym migration = "nat \<Rightarrow> nat option \<Rightarrow> schema_op list"

section \<open>Request listeners: the closures of the source\<close>

text \<open>
  The listeners the wrapper methods register on a request. \<open>ResolveResult p r\<close> is
  \<open>() => { resolve(req.result); }\<close> for the promise \<open>p\<close> and the request \<open>r\<close>;
  \<open>ResolveUndefined p\<close> is \<open>() => { resolve(undefined); }\<close>;
  \<open>RejectEvent p\<close> is \<open>(ev) => { reject(ev); }\<close>;
  \<open>ResolveDb p\<close> is \<open>openDatabase\<close>'s success listener, which wraps the opened
  connection; \<open>RunMigration m\<close> and \<open>RunBlocked b\<close> are its
  \<open>upgradeneeded\<close> and \<open>blocked\<close> listeners calling the caller's callbacks.
\<close>

datatype handler =
    ResolveResult addr addr
  | ResolveUndefined addr
  | RejectEvent addr
  | ResolveDb addr
  | RunMigration migration
  | RunBlocked nat

datatype req_event = ReqSuccess | ReqError | ReqUpgradeNeeded | ReqBlocked

section \<open>Promises\<close>

text \<open>
  What a promise resolves with: a JavaScript value, a raw connection (the result of
  an open request), or a database wrapper. What it is rejected with: the error
  \<open>Event\<close> fired at a request (named by the request, its target), or an exception
  thrown while the executor ran.
\<close>

datatype pvalue = PJs jsval | PConn addr | PDb promised_db

datatype reason = RejEvent addr | RejException dom_error

datatype promise_state = Pending | Fulfilled pvalue | Rejected reason

section \<open>Host objects\<close>

text \<open>
  The operation a request carries out when the host runs it: a read of a store
  (index name \<open>None\<close>) or of an index, "store a record" (with its no-overwrite
  flag), delete, clear, or opening a database.
\<close>

datatype native_op =
    NRead read_op string "string option" query
  | NStore bool string jsval "key option"
  | NDelete string query
  | NClear string
  | NOpen string nat

record request =
  rq_txn :: "addr option"
  rq_op :: native_op
  rq_result :: "(dom_error + pvalue) option"
  rq_listeners :: "(req_event \<times> handler) list"

datatype tx_mode = ReadOnly | ReadWrite | VersionChange

datatype tx_state = TxActive | TxCommitting | TxCommitted | TxAborted

record transaction =
  tx_conn :: addr
  tx_scope :: "string list"
  tx_mode :: tx_mode
  tx_state :: tx_state
  tx_started :: bool
  tx_pending :: "addr list"
  tx_backup :: "(string \<times> object_store) list"
  tx_listeners :: "(tx_event \<times> callback) list"

record database =
  db_version :: nat
  db_stores :: "(string \<times> object_store) list"

record connection =
  cn_db :: string
  cn_closed :: bool

datatype observation =
    CalledBack callback tx_event
  | CalledBlocked nat nat "nat option"
  | CalledMigration nat "nat option"

record world =
  w_dbs :: "(string \<times> database) list"
  w_conns :: "connection list"
  w_txns :: "transaction list"
  w_reqs :: "request list"
  w_proms :: "promise_state list"
  w_log :: "observation list"

definition empty_world :: world where
  "empty_world = \<lparr>w_dbs = [], w_conns = [], w_txns = [], w_reqs = [], w_proms = [], w_log = []\<rparr>"

section \<open>Reading and updating the world\<close>

definition txn_at :: "world \<Rightarrow> addr \<Rightarrow> transaction option" where
  "txn_at w t = (if t < length (w_txns w) then Some (w_txns w ! t) else None)"

definition txn_db_name :: "world \<Rightarrow> transaction \<Rightarrow> string option" where
  "txn_db_name w tx =
     (if tx_conn tx < length (w_conns w) then Some (cn_db (w_conns w ! tx_conn tx)) else None)"

definition txn_stores :: "world \<Rightarrow> addr \<Rightarrow> (string \<times> object_store) list" where
  "txn_stores w t =
     (case txn_at w t of
        None \<Rightarrow> []
      | Some tx \<Rightarrow> (case txn_db_name w tx of
                     None \<Rightarrow> []
                   | Some n \<Rightarrow> (case map_of (w_dbs w) n of None \<Rightarrow> [] | Some d \<Rightarrow> db_stores d)))"

definition store_of :: "world \<Rightarrow> addr \<Rightarrow> string \<Rightarrow> object_store option" where
  "store_of w t s = map_of (txn_stores w t) s"

definition map_db :: "string \<Rightarrow> (database \<Rightarrow> database) \<Rightarrow> world \<Rightarrow> world" where
  "map_db n f w =
     (case map_of (w_dbs w) n of
        None \<Rightarrow> w
      | Some d \<Rightarrow> w\<lparr>w_dbs := AList.update n (f d) (w_dbs w)\<rparr>)"

definition set_txn_stores :: "addr \<Rightarrow> (string \<times> object_store) list \<Rightarrow> world \<Rightarrow> world" where
  "set_txn_stores t ss w =
     (case txn_at w t of
        None \<Rightarrow> w
      | Some tx \<Rightarrow> (case txn_db_name w tx of
                     None \<Rightarrow> w
                   | Some n \<Rightarrow> map_db n (\<lambda>d. d\<lparr>db_stores := ss\<rparr>) w))"

definition map_txn :: "addr \<Rightarrow> (transaction \<Rightarrow> transaction) \<Rightarrow> world \<Rightarrow> world" where
  "map_txn t f w = w\<lparr>w_txns := upd_at t f (w_txns w)\<rparr>"

definition map_req :: "addr \<Rightarrow> (request \<Rightarrow> request) \<Rightarrow> world \<Rightarrow> world" where
  "map_req r f w = w\<lparr>w_reqs := upd_at r f (w_reqs w)\<rparr>"

definition req_at :: "world \<Rightarrow> addr \<Rightarrow> request option" where
  "req_at w r = (if r < length (w_reqs w) then Some (w_reqs w ! r) else None)"

definition prom_at :: "world \<Rightarrow> addr \<Rightarrow> promise_state option" where
  "prom_at w p = (if p < length (w_proms w) then Some (w_proms w ! p) else None)"

section \<open>Schema changes on the raw database handle\<close>

text \<open>
  The calls a migration callback makes on the \<open>IDBDatabase\<close> it receives. Each
  throws as the host does: creating an existing store or index is a
  \<open>ConstraintError\<close>, naming a missing one a \<open>NotFoundError\<close>, a unique index
  over records that already share an index key a \<open>ConstraintError\<close>.
\<close>

fun apply_schema_op ::
  "schema_op \<Rightarrow> (string \<times> object_store) list \<Rightarrow> dom_error + (string \<times> object_store) list" where
  "apply_schema_op (CreateObjectStore n kp auto) ss =
     (if map_of ss n \<noteq> None then Inl ConstraintError
      else if auto \<and> kp = Some [] then Inl InvalidAccessError
      else Inr (AList.update n (empty_store kp auto) ss))"
| "apply_schema_op (DeleteObjectStore n) ss =
     (if map_of ss n = None then Inl NotFoundError else Inr (AList.delete n ss))"
| "apply_schema_op (CreateIndex s n kp uniq multi) ss =
     (case map_of ss s of
        None \<Rightarrow> Inl NotFoundError
      | Some os \<Rightarrow>
          (if map_of (os_indexes os) n \<noteq> None then Inl ConstraintError
           else
             (let ix = \<lparr>ix_keyPath = kp, ix_unique = uniq, ix_multiEntry = multi\<rparr> in
              if uniq \<and> \<not> distinct (map fst (index_entries ix os)) then Inl ConstraintError
              else Inr (AList.update s (os\<lparr>os_indexes := os_indexes os @ [(n, ix)]\<rparr>) ss))))"

fun apply_schema_ops ::
  "schema_op list \<Rightarrow> (string \<times> object_store) list \<Rightarrow> dom_error + (string \<times> object_store) list" where
  "apply_schema_ops [] ss = Inr ss"
| "apply_schema_ops (op # ops) ss =
     (case apply_schema_op op ss of Inl e \<Rightarrow> Inl e | Inr ss' \<Rightarrow> apply_schema_ops ops ss')"

section \<open>How the updates read back\<close>

lemma map_req_frame [simp]:
  "w_txns (map_req r f w) = w_txns w" "w_proms (map_req r f w) = w_proms w"
  "w_dbs (map_req r f w) = w_dbs w" "w_conns (map_req r f w) = w_conns w"
  "w_log (map_req r f w) = w_log w"
  by (simp_all add: map_req_def)

lemma map_txn_frame [simp]:
  "w_reqs (map_txn t f w) = w_reqs w" "w_proms (map_txn t f w) = w_proms w"
  "w_dbs (map_txn t f w) = w_dbs w" "w_conns (map_txn t f w) = w_conns w"
  "w_log (map_txn t f w) = w_log w"
  by (simp_all add: map_txn_def)

lemma map_db_frame [simp]:
  "w_reqs (map_db n f w) = w_reqs w" "w_proms (map_db n f w) = w_proms w"
  "w_txns (map_db n f w) = w_txns w" "w_conns (map_db n f w) = w_conns w"
  "w_log (map_db n f w) = w_log w"
  by (simp_all add: map_db_def split: option.splits)

lemma set_txn_stores_frame [simp]:
  "w_reqs (set_txn_stores t ss w) = w_reqs w" "w_proms (set_txn_stores t ss w) = w_proms w"
  "w_txns (set_txn_stores t ss w) = w_txns w" "w_conns (set_txn_stores t ss w) = w_conns w"
  "w_log (set_txn_stores t ss w) = w_log w"
  by (simp_all add: set_txn_stores_def split: option.splits)

lemma txn_at_upd [simp]:
  "txn_at (w\<lparr>w_reqs := rs\<rparr>) t = txn_at w t"
  "txn_at (w\<lparr>w_proms := ps\<rparr>) t = txn_at w t"
  "txn_at (w\<lparr>w_log := l\<rparr>) t = txn_at w t"
  "txn_at (w\<lparr>w_dbs := ds\<rparr>) t = txn_at w t"
  by (simp_all add: txn_at_def)

lemma txn_db_name_upd [simp]:
  "txn_db_name (w\<lparr>w_reqs := rs\<rparr>) tx = txn_db_name w tx"
  "txn_db_name (w\<lparr>w_proms := ps\<rparr>) tx = txn_db_name w tx"
  "txn_db_name (w\<lparr>w_log := l\<rparr>) tx = txn_db_name w tx"
  "txn_db_name (w\<lparr>w_dbs := ds\<rparr>) tx = txn_db_name w tx"
  "txn_db_name (w\<lparr>w_txns := ts\<rparr>) tx = txn_db_name w tx"
  by (simp_all add: txn_db_name_def)

lemma txn_stores_upd [simp]:
  "txn_stores (w\<lparr>w_reqs := rs\<rparr>) t = txn_stores w t"
  "txn_stores (w\<lparr>w_proms := ps\<rparr>) t = txn_stores w t"
  "txn_stores (w\<lparr>w_log := l\<rparr>) t = txn_stores w t"
  by (simp_all add: txn_stores_def split: option.split)

lemma txn_at_map_txn [world_simps]:
  "txn_at (map_txn t f w) t' = (if t = t' then map_option f (txn_at w t) else txn_at w t')"
  by (auto simp: txn_at_def map_txn_def)

lemma txn_db_name_map_txn [simp]: "txn_db_name (map_txn t f w) tx = txn_db_name w tx"
  by (simp add: txn_db_name_def map_txn_def)

lemma txn_stores_map_txn [world_simps]:
  assumes "\<And>tx. tx_conn (f tx) = tx_conn tx"
  shows "txn_stores (map_txn t f w) t' = txn_stores w t'"
  by (cases "txn_at w t'") (auto simp: txn_stores_def txn_at_map_txn txn_db_name_def assms)

lemma req_at_map_req [world_simps]:
  "req_at (map_req r f w) r' = (if r = r' then map_option f (req_at w r) else req_at w r')"
  by (auto simp: req_at_def map_req_def)

lemma txn_at_frame:
  "w_txns w' = w_txns w \<Longrightarrow> txn_at w' t = txn_at w t"
  by (simp add: txn_at_def)

lemma txn_stores_frame:
  "w_txns w' = w_txns w \<Longrightarrow> w_conns w' = w_conns w \<Longrightarrow> w_dbs w' = w_dbs w \<Longrightarrow>
     txn_stores w' t = txn_stores w t"
  by (simp add: txn_stores_def txn_at_def txn_db_name_def)

lemma txn_stores_set_txn_stores:
  assumes "store_of w t s = Some os"
  shows "txn_stores (set_txn_stores t ss w) t = ss"
proof -
  from assms obtain tx n d where "txn_at w t = Some tx" "txn_db_name w tx = Some n"
      "map_of (w_dbs w) n = Some d"
    by (auto simp: store_of_def txn_stores_def split: option.splits)
  then show ?thesis
    by (auto simp: set_txn_stores_def map_db_def txn_stores_def txn_db_name_def txn_at_def
        update_conv' split: if_splits)
qed

lemma req_at_frame:
  "w_reqs w' = w_reqs w \<Longrightarrow> req_at w' = req_at w"
  by (simp add: req_at_def fun_eq_iff)

end
