(* ===== verification/Request_Promise.thy ===== *)
theory Request_Promise
  imports IDB_World
begin

text \<open>
  The idiom every asynchronous method of \<open>src/src/index.ts\<close> repeats:
  \<^verbatim>\<open>
  return new Promise<T>((resolve, reject) => {
    const req = <native call>;
    req.addEventListener('success', () => { resolve(req.result); });
    req.addEventListener('error', (ev) => { reject(ev); });
  });
  \<close>
  Here are the parts of the JavaScript runtime it relies on (promise creation and
  one-shot settlement, event-listener registration and dispatch in registration
  order), the execution of the listener closures, and the idiom itself as one
  definition, \<open>promisify\<close>, parameterised by the native call and the success
  listener. A native call that throws while the executor runs rejects the promise
  with the exception, as the \<open>Promise\<close> constructor does.
\<close>

section \<open>Promises\<close>

definition new_promise :: "world \<Rightarrow> addr \<times> world" where
  "new_promise w = (let (p, ps) = alloc Pending (w_proms w) in (p, w\<lparr>w_proms := ps\<rparr>))"

text \<open>
  \<open>resolve\<close> and \<open>reject\<close> share one "already resolved" flag: the first call
  settles the promise, every later one is ignored. None of the values passed here is a
  thenable, so resolving fulfils.
\<close>

definition settle :: "addr \<Rightarrow> promise_state \<Rightarrow> world \<Rightarrow> world" where
  "settle p st w = w\<lparr>w_proms := upd_at p (\<lambda>s. if s = Pending then st else s) (w_proms w)\<rparr>"

definition resolve_promise :: "addr \<Rightarrow> pvalue \<Rightarrow> world \<Rightarrow> world" where
  "resolve_promise p v = settle p (Fulfilled v)"

definition reject_promise :: "addr \<Rightarrow> reason \<Rightarrow> world \<Rightarrow> world" where
  "reject_promise p e = settle p (Rejected e)"

section \<open>Request listeners\<close>

text \<open>
  Each arrow function of the source is a new function object, so registering it never
  meets the duplicate check of \<open>addEventListener\<close>: the listener is appended.
\<close>

definition add_req_listener :: "addr \<Rightarrow> req_event \<Rightarrow> handler \<Rightarrow> world \<Rightarrow> world" where
  "add_req_listener r e h = map_req r (\<lambda>rq. rq\<lparr>rq_listeners := rq_listeners rq @ [(e, h)]\<rparr>)"

definition req_result :: "world \<Rightarrow> addr \<Rightarrow> (dom_error + pvalue) option" where
  "req_result w r = (case req_at w r of None \<Rightarrow> None | Some rq \<Rightarrow> rq_result rq)"

text \<open>
  A migration runs the caller's schema changes on the database of the upgrade
  transaction (the open request's \<open>transaction\<close>). A change that throws leaves the
  listener with the exception, and the host then aborts the upgrade transaction:
  the database keeps the stores it had.
\<close>

definition run_migration :: "addr \<Rightarrow> migration \<Rightarrow> nat \<Rightarrow> nat option \<Rightarrow> world \<Rightarrow> world" where
  "run_migration r m old new w =
     (let w1 = w\<lparr>w_log := w_log w @ [CalledMigration old new]\<rparr> in
      case req_at w r of
        None \<Rightarrow> w1
      | Some rq \<Rightarrow>
          (case rq_txn rq of
             None \<Rightarrow> w1
           | Some t \<Rightarrow>
               (case apply_schema_ops (m old new) (txn_stores w1 t) of
                  Inr ss \<Rightarrow> set_txn_stores t ss w1
                | Inl e \<Rightarrow> map_txn t (\<lambda>tx. tx\<lparr>tx_state := TxAborted\<rparr>) w1)))"

text \<open>
  Running one listener for an event fired at request \<open>r\<close> (with the version
  fields of a version-change event). \<open>req.result\<close> is read when the listener runs;
  when the request holds no result the read throws inside the listener, which the
  host reports, and nothing is settled.
\<close>

fun run_handler :: "addr \<Rightarrow> nat \<Rightarrow> nat option \<Rightarrow> handler \<Rightarrow> world \<Rightarrow> world" where
  "run_handler r old new (ResolveResult p r') w =
     (case req_result w r' of Some (Inr v) \<Rightarrow> resolve_promise p v w | _ \<Rightarrow> w)"
| "run_handler r old new (ResolveUndefined p) w = resolve_promise p (PJs JUndefined) w"
| "run_handler r old new (RejectEvent p) w = reject_promise p (RejEvent r) w"
| "run_handler r old new (ResolveDb p) w =
     (case req_result w r of
        Some (Inr (PConn c)) \<Rightarrow> resolve_promise p (PDb (PromisedIndexedDb c)) w
      | _ \<Rightarrow> w)"
| "run_handler r old new (RunMigration m) w = run_migration r m old new w"
| "run_handler r old new (RunBlocked b) w = w\<lparr>w_log := w_log w @ [CalledBlocked b old new]\<rparr>"

text \<open>
  Dispatch runs the listeners registered for the event's type, in registration
  order, over the list as it was when dispatch began.
\<close>

definition fire_request :: "req_event \<Rightarrow> addr \<Rightarrow> nat \<Rightarrow> nat option \<Rightarrow> world \<Rightarrow> world" where
  "fire_request e r old new w =
     (case req_at w r of
        None \<Rightarrow> w
      | Some rq \<Rightarrow> fold (\<lambda>(e', h) w. if e' = e then run_handler r old new h w else w)
                     (rq_listeners rq) w)"

section \<open>The request-to-promise idiom\<close>

text \<open>
  \<open>promisify on_success native w\<close>: allocate the promise, run the native call; if
  it throws, the promise is rejected with the exception; otherwise register the
  success listener and then the error listener on the new request. The promise's
  address is returned.
\<close>

definition promisify ::
  "(addr \<Rightarrow> addr \<Rightarrow> handler) \<Rightarrow> (world \<Rightarrow> dom_error + (addr \<times> world)) \<Rightarrow> world \<Rightarrow> addr \<times> world" where
  "promisify on_success native w =
     (let (p, w1) = new_promise w in
      case native w1 of
        Inl e \<Rightarrow> (p, reject_promise p (RejException e) w1)
      | Inr (r, w2) \<Rightarrow>
          (p, add_req_listener r ReqError (RejectEvent p)
                (add_req_listener r ReqSuccess (on_success p r) w2)))"

section \<open>Facts on promises and listeners\<close>

lemma new_promise_eq [wrapper_simps]:
  "new_promise w = (length (w_proms w), w\<lparr>w_proms := w_proms w @ [Pending]\<rparr>)"
  by (simp add: new_promise_def alloc_def)

lemma settle_frame [simp]:
  "w_reqs (settle p st w) = w_reqs w" "w_txns (settle p st w) = w_txns w"
  "w_dbs (settle p st w) = w_dbs w" "w_conns (settle p st w) = w_conns w"
  "w_log (settle p st w) = w_log w"
  by (simp_all add: settle_def)

lemma settle_pending [simp]:
  "p < length (w_proms w) \<Longrightarrow> w_proms w ! p = Pending \<Longrightarrow> w_proms (settle p st w) ! p = st"
  by (simp add: settle_def)

text \<open>Settlement happens once: a settled promise keeps its state.\<close>

lemma settle_settled:
  "w_proms w ! p \<noteq> Pending \<Longrightarrow> w_proms (settle p st w) ! p = w_proms w ! p"
  by (simp add: settle_def)

lemma settle_other [simp]:
  "p' \<noteq> p \<Longrightarrow> w_proms (settle p st w) ! p' = w_proms w ! p'"
  by (simp add: settle_def)

lemma length_settle [simp]: "length (w_proms (settle p st w)) = length (w_proms w)"
  by (simp add: settle_def)

lemma add_req_listener_frame [simp]:
  "w_txns (add_req_listener r e h w) = w_txns w" "w_proms (add_req_listener r e h w) = w_proms w"
  "w_dbs (add_req_listener r e h w) = w_dbs w" "w_conns (add_req_listener r e h w) = w_conns w"
  "w_log (add_req_listener r e h w) = w_log w"
  by (simp_all add: add_req_listener_def)

lemma promisify_Inl:
  assumes "native (snd (new_promise w)) = Inl e"
  shows "promisify h native w =
           (length (w_proms w), reject_promise (length (w_proms w)) (RejException e) (snd (new_promise w)))"
  using assms by (simp add: promisify_def new_promise_eq)

lemma promisify_Inr:
  assumes "native (snd (new_promise w)) = Inr (r, w2)"
  shows "promisify h native w =
           (length (w_proms w), add_req_listener r ReqError (RejectEvent (length (w_proms w)))
              (add_req_listener r ReqSuccess (h (length (w_proms w)) r) w2))"
  using assms by (simp add: promisify_def new_promise_eq)

text \<open>
  Firing at a request that carries exactly the two listeners of the idiom runs the
  success listener on \<open>success\<close> and rejects on \<open>error\<close>.
\<close>

lemma fire_idiom_success:
  assumes "req_at w r = Some rq" and "rq_listeners rq = [(ReqSuccess, h), (ReqError, RejectEvent p)]"
  shows "fire_request ReqSuccess r old new w = run_handler r old new h w"
  using assms by (simp add: fire_request_def)

lemma fire_idiom_error:
  assumes "req_at w r = Some rq" and "rq_listeners rq = [(ReqSuccess, h), (ReqError, RejectEvent p)]"
  shows "fire_request ReqError r old new w = reject_promise p (RejEvent r) w"
  using assms by (simp add: fire_request_def)

text \<open>Running listeners never touches the connections.\<close>

lemma run_handler_conns [simp]: "w_conns (run_handler r o' n h w) = w_conns w"
  by (cases h) (auto simp: run_migration_def resolve_promise_def reject_promise_def Let_def
      split: option.splits sum.splits pvalue.splits)

lemma fold_run_handler_conns:
  "w_conns (fold (\<lambda>(e', h) w. if e' = e then run_handler r o' n h w else w) ls w) = w_conns w"
  by (induction ls arbitrary: w) auto

lemma fire_request_conns [simp]: "w_conns (fire_request e r o' n w) = w_conns w"
  by (simp add: fire_request_def fold_run_handler_conns split: option.split)

text \<open>Dispatch runs, in order, the listeners registered for the event's type.\<close>

lemma fold_event_filter:
  "fold (\<lambda>(e', h) w. if e' = e then g h w else w) ls w =
     fold g (map snd (filter (\<lambda>(e', h). e' = e) ls)) w"
  by (induction ls arbitrary: w) auto

lemma fire_request_listeners:
  "req_at w r = Some rq \<Longrightarrow>
     fire_request e r o' n w = fold (run_handler r o' n) (map snd (filter (\<lambda>(e', h). e' = e) (rq_listeners rq))) w"
  by (simp add: fire_request_def fold_event_filter)

end
