(* ===== verification/IDB_Host.thy ===== *)
theory IDB_Host
  imports Request_Promise
begin

text \<open>
  The host's side of the wrapped calls, after the IndexedDB specification: the
  synchronous steps of the native methods (the checks that throw, then placing a
  request on the transaction's request list), and the asynchronous processing the
  host does later (starting a transaction, running its requests in order, firing
  \<open>success\<close> or \<open>error\<close>, aborting on an error nobody cancelled, committing).
  None of this is code of the repository; the wrappers call it.
\<close>

section \<open>Synchronous steps\<close>

definition txn_active :: "world \<Rightarrow> addr \<Rightarrow> bool" where
  "txn_active w t = (case txn_at w t of Some tx \<Rightarrow> tx_state tx = TxActive | None \<Rightarrow> False)"

definition txn_finished :: "world \<Rightarrow> addr \<Rightarrow> bool" where
  "txn_finished w t =
     (case txn_at w t of Some tx \<Rightarrow> tx_state tx \<in> {TxCommitted, TxAborted} | None \<Rightarrow> True)"

definition txn_writable :: "world \<Rightarrow> addr \<Rightarrow> bool" where
  "txn_writable w t = (case txn_at w t of Some tx \<Rightarrow> tx_mode tx \<noteq> ReadOnly | None \<Rightarrow> False)"

definition place_request :: "addr \<Rightarrow> native_op \<Rightarrow> world \<Rightarrow> addr \<times> world" where
  "place_request t op w =
     (let (r, rs) = alloc \<lparr>rq_txn = Some t, rq_op = op, rq_result = None, rq_listeners = []\<rparr> (w_reqs w)
      in (r, map_txn t (\<lambda>tx. tx\<lparr>tx_pending := tx_pending tx @ [r]\<rparr>) (w\<lparr>w_reqs := rs\<rparr>)))"

text \<open>
  The optional \<open>count\<close> of \<open>getAll\<close> and \<open>getAllKeys\<close> is an
  \<open>[EnforceRange] unsigned long\<close>: a number outside \<open>0 .. 2^32 - 1\<close> is a
  \<open>TypeError\<close> before the method runs; absent is 0, no limit.
\<close>

definition convert_count :: "int option \<Rightarrow> dom_error + nat" where
  "convert_count c =
     (case c of
        None \<Rightarrow> Inr 0
      | Some n \<Rightarrow> (if 0 \<le> n \<and> n < 2 ^ 32 then Inr (nat n) else Inl TypeError))"

text \<open>\<open>get\<close> and \<open>getKey\<close> need a key or a range; the others take \<open>undefined\<close>.\<close>

fun needs_query :: "read_op \<Rightarrow> bool" where
  "needs_query RGet = True"
| "needs_query RGetKey = True"
| "needs_query _ = False"

text \<open>
  A read of a store (\<open>ix = None\<close>) or of an index: the handle must still name an
  existing store and index, the transaction must be active, and \<open>get\<close>/\<open>getKey\<close>
  refuse \<open>undefined\<close>.
\<close>

definition native_read ::
  "read_op \<Rightarrow> addr \<Rightarrow> string \<Rightarrow> string option \<Rightarrow> query \<Rightarrow> world \<Rightarrow> dom_error + (addr \<times> world)" where
  "native_read op t s ix q w =
     (case store_of w t s of
        None \<Rightarrow> Inl InvalidStateError
      | Some os \<Rightarrow>
          (if (case ix of None \<Rightarrow> False | Some i \<Rightarrow> map_of (os_indexes os) i = None)
           then Inl InvalidStateError
           else if \<not> txn_active w t then Inl TransactionInactiveError
           else if needs_query op \<and> q = QNone then Inl DataError
           else Inr (place_request t (NRead op s ix q) w)))"

text \<open>
  \<open>add\<close> and \<open>put\<close>: after the state checks, a store with in-line keys refuses an
  explicit key and takes the key from the value; a store with out-of-line keys and no
  key generator needs the explicit key; a value whose key path yields no key needs a
  generator and an object to inject the generated key into.
\<close>

fun is_object :: "jsval \<Rightarrow> bool" where
  "is_object (JObj ps) = True"
| "is_object _ = False"

definition native_store ::
  "bool \<Rightarrow> addr \<Rightarrow> string \<Rightarrow> jsval \<Rightarrow> key option \<Rightarrow> world \<Rightarrow> dom_error + (addr \<times> world)" where
  "native_store no_overwrite t s v k w =
     (case store_of w t s of
        None \<Rightarrow> Inl InvalidStateError
      | Some os \<Rightarrow>
          (if \<not> txn_active w t then Inl TransactionInactiveError
           else if \<not> txn_writable w t then Inl ReadOnlyError
           else (case os_keyPath os of
                   None \<Rightarrow>
                     (if k = None \<and> os_generator os = None then Inl DataError
                      else Inr (place_request t (NStore no_overwrite s v k) w))
                 | Some p \<Rightarrow>
                     (if k \<noteq> None then Inl DataError
                      else (case eval_key_path p v of
                              Some x \<Rightarrow>
                                (case value_key x of
                                   Some k' \<Rightarrow> Inr (place_request t (NStore no_overwrite s v (Some k')) w)
                                 | None \<Rightarrow> Inl DataError)
                            | None \<Rightarrow>
                                (if os_generator os = None \<or> \<not> is_object v then Inl DataError
                                 else Inr (place_request t (NStore no_overwrite s v None) w)))))))"

definition native_delete :: "addr \<Rightarrow> string \<Rightarrow> query \<Rightarrow> world \<Rightarrow> dom_error + (addr \<times> world)" where
  "native_delete t s q w =
     (case store_of w t s of
        None \<Rightarrow> Inl InvalidStateError
      | Some os \<Rightarrow>
          (if \<not> txn_active w t then Inl TransactionInactiveError
           else if \<not> txn_writable w t then Inl ReadOnlyError
           else if q = QNone then Inl DataError
           else Inr (place_request t (NDelete s q) w)))"

definition native_clear :: "addr \<Rightarrow> string \<Rightarrow> world \<Rightarrow> dom_error + (addr \<times> world)" where
  "native_clear t s w =
     (case store_of w t s of
        None \<Rightarrow> Inl InvalidStateError
      | Some os \<Rightarrow>
          (if \<not> txn_active w t then Inl TransactionInactiveError
           else if \<not> txn_writable w t then Inl ReadOnlyError
           else Inr (place_request t (NClear s) w)))"

section \<open>Asynchronous processing\<close>

text \<open>
  Running a request's operation on the stores of the transaction's database: the
  result and the new store list. \<open>exec_native\<close> does it on the world.
\<close>

definition exec_on_stores ::
  "native_op \<Rightarrow> (string \<times> object_store) list \<Rightarrow> dom_error + (pvalue \<times> (string \<times> object_store) list)" where
  "exec_on_stores op ss =
     (case op of
        NRead rop s ix q \<Rightarrow>
          (case map_of ss s of
             None \<Rightarrow> Inl InvalidStateError
           | Some os \<Rightarrow>
               (case ix of
                  None \<Rightarrow> Inr (PJs (exec_read rop q (store_entries os)), ss)
                | Some i \<Rightarrow>
                    (case map_of (os_indexes os) i of
                       None \<Rightarrow> Inl InvalidStateError
                     | Some d \<Rightarrow> Inr (PJs (exec_read rop q (index_entries d os)), ss))))
      | NStore b s v k \<Rightarrow>
          (case map_of ss s of
             None \<Rightarrow> Inl InvalidStateError
           | Some os \<Rightarrow>
               (case store_record b v k os of
                  Inl e \<Rightarrow> Inl e
                | Inr (key, os') \<Rightarrow> Inr (PJs (key_value key), AList.update s os' ss)))
      | NDelete s q \<Rightarrow>
          (case map_of ss s of
             None \<Rightarrow> Inl InvalidStateError
           | Some os \<Rightarrow> Inr (PJs JUndefined, AList.update s (delete_records q os) ss))
      | NClear s \<Rightarrow>
          (case map_of ss s of
             None \<Rightarrow> Inl InvalidStateError
           | Some os \<Rightarrow> Inr (PJs JUndefined, AList.update s (clear_records os) ss))
      | NOpen n v \<Rightarrow> Inl InvalidStateError)"

definition exec_native :: "addr \<Rightarrow> native_op \<Rightarrow> world \<Rightarrow> dom_error + (pvalue \<times> world)" where
  "exec_native t op w =
     map_sum id (\<lambda>(v, ss). (v, set_txn_stores t ss w)) (exec_on_stores op (txn_stores w t))"

text \<open>
  Firing a transaction event runs the caller's listeners for it in order; the result
  says whether one of them called \<open>preventDefault()\<close>.
\<close>

definition call_listener :: "tx_event \<Rightarrow> tx_event \<times> callback \<Rightarrow> world \<times> bool \<Rightarrow> world \<times> bool" where
  "call_listener e l wc =
     (case (l, wc) of
        ((e', cb), (w, c)) \<Rightarrow>
          (if e' = e then (w\<lparr>w_log := w_log w @ [CalledBack cb e]\<rparr>, c \<or> cb_cancels cb) else (w, c)))"

definition fire_txn :: "addr \<Rightarrow> tx_event \<Rightarrow> world \<Rightarrow> world \<times> bool" where
  "fire_txn t e w =
     (case txn_at w t of
        None \<Rightarrow> (w, False)
      | Some tx \<Rightarrow> fold (call_listener e) (tx_listeners tx) (w, False))"

definition set_result :: "addr \<Rightarrow> dom_error + pvalue \<Rightarrow> world \<Rightarrow> world" where
  "set_result r x = map_req r (\<lambda>rq. rq\<lparr>rq_result := Some x\<rparr>)"

text \<open>
  An error event is fired at the request and bubbles to its transaction; it reports
  whether a listener cancelled it.
\<close>

definition fire_error :: "addr \<Rightarrow> addr \<Rightarrow> dom_error \<Rightarrow> world \<Rightarrow> world \<times> bool" where
  "fire_error t r e w = fire_txn t TxError (fire_request ReqError r 0 None (set_result r (Inl e) w))"

text \<open>
  Aborting: the transaction is finished, its stores get back the contents they had
  when it started, every request still pending fails with \<open>AbortError\<close>, and
  \<open>abort\<close> is fired at the transaction.
\<close>

definition abort_txn :: "addr \<Rightarrow> world \<Rightarrow> world" where
  "abort_txn t w =
     (case txn_at w t of
        None \<Rightarrow> w
      | Some tx \<Rightarrow>
          (let w1 = map_txn t (\<lambda>tx. tx\<lparr>tx_state := TxAborted, tx_pending := []\<rparr>) w;
               w2 = (if tx_started tx \<and> tx_mode tx \<noteq> ReadOnly
                     then set_txn_stores t (if tx_mode tx = VersionChange then tx_backup tx
                                            else fold (\<lambda>(n, os) ss. AList.update n os ss)
                                                   (tx_backup tx) (txn_stores w1 t)) w1
                     else w1);
               w3 = fold (\<lambda>r w. fst (fire_error t r AbortError w)) (tx_pending tx) w2
           in fst (fire_txn t TxAbort w3)))"

text \<open>
  The host starts a transaction once no transaction created before it that overlaps
  its scope, one of the two writing, is still running; the contents of its stores at
  that moment are what an abort restores.
\<close>

definition conflicts :: "transaction \<Rightarrow> transaction \<Rightarrow> bool" where
  "conflicts a b \<longleftrightarrow>
     tx_conn a = tx_conn b \<or>
     (set (tx_scope a) \<inter> set (tx_scope b) \<noteq> {} \<and> (tx_mode a \<noteq> ReadOnly \<or> tx_mode b \<noteq> ReadOnly))"

definition can_start :: "world \<Rightarrow> addr \<Rightarrow> bool" where
  "can_start w t =
     (case txn_at w t of
        None \<Rightarrow> False
      | Some tx \<Rightarrow>
          \<not> tx_started tx \<and> tx_state tx \<in> {TxActive, TxCommitting} \<and>
          list_all (\<lambda>u. \<not> (tx_state u \<in> {TxActive, TxCommitting} \<and> conflicts u tx))
            (take t (w_txns w)))"

definition start_txn :: "addr \<Rightarrow> world \<Rightarrow> world" where
  "start_txn t w =
     map_txn t (\<lambda>tx. tx\<lparr>tx_started := True,
                         tx_backup := filter (\<lambda>(n, os). n \<in> set (tx_scope tx) \<or> tx_mode tx = VersionChange)
                                        (txn_stores w t)\<rparr>) w"

text \<open>
  Running the transaction's first pending request: on success the result is stored
  and \<open>success\<close> fired; on failure \<open>error\<close> is fired and, unless a listener
  cancelled it, the transaction is aborted with the request's error.
\<close>

definition run_request :: "addr \<Rightarrow> world \<Rightarrow> world" where
  "run_request t w =
     (case txn_at w t of
        None \<Rightarrow> w
      | Some tx \<Rightarrow>
          (case tx_pending tx of
             [] \<Rightarrow> w
           | r # rs \<Rightarrow>
               (let w1 = map_txn t (\<lambda>tx. tx\<lparr>tx_pending := rs\<rparr>) w in
                case req_at w1 r of
                  None \<Rightarrow> w1
                | Some rq \<Rightarrow>
                    (case exec_native t (rq_op rq) w1 of
                       Inr (v, w2) \<Rightarrow> fire_request ReqSuccess r 0 None (set_result r (Inr v) w2)
                     | Inl e \<Rightarrow>
                         (let (w2, cancelled) = fire_error t r e w1 in
                          if cancelled then w2 else abort_txn t w2)))))"

text \<open>Committing a started transaction with no pending request, and firing \<open>complete\<close>.\<close>

definition commit_txn :: "addr \<Rightarrow> world \<Rightarrow> world" where
  "commit_txn t w = fst (fire_txn t TxComplete (map_txn t (\<lambda>tx. tx\<lparr>tx_state := TxCommitted\<rparr>) w))"

section \<open>Attributes and child handles\<close>

definition index_def_at :: "world \<Rightarrow> addr \<Rightarrow> string \<Rightarrow> string \<Rightarrow> index_def option" where
  "index_def_at w t s i =
     (case store_of w t s of None \<Rightarrow> None | Some os \<Rightarrow> map_of (os_indexes os) i)"

text \<open>
  \<open>IDBObjectStore.index(name)\<close>: \<open>InvalidStateError\<close> once the transaction has
  finished, \<open>NotFoundError\<close> for a name the store has no index for.
\<close>

definition native_index :: "addr \<Rightarrow> string \<Rightarrow> string \<Rightarrow> world \<Rightarrow> dom_error + index_handle" where
  "native_index t s i w =
     (if store_of w t s = None \<or> txn_finished w t then Inl InvalidStateError
      else if index_def_at w t s i = None then Inl NotFoundError
      else Inr (IndexHandle t s i))"

text \<open>
  The read methods with a \<open>count\<close> argument convert it first, the other reads pass
  no limit.
\<close>

definition native_read_counted ::
  "(nat \<Rightarrow> read_op) \<Rightarrow> addr \<Rightarrow> string \<Rightarrow> string option \<Rightarrow> query \<Rightarrow> int option \<Rightarrow> world
     \<Rightarrow> dom_error + (addr \<times> world)" where
  "native_read_counted mk t s ix q c w =
     (case convert_count c of Inl e \<Rightarrow> Inl e | Inr n \<Rightarrow> native_read (mk n) t s ix q w)"

section \<open>Transaction and connection methods\<close>

text \<open>
  \<open>IDBTransaction.abort()\<close> throws \<open>InvalidStateError\<close> once the transaction is
  committing or finished; \<open>commit()\<close> throws it unless the transaction is active,
  and otherwise only marks it committing (the host commits once its requests are
  done). \<open>objectStore(name)\<close> throws \<open>InvalidStateError\<close> on a finished transaction
  and \<open>NotFoundError\<close> for a name outside its scope.
\<close>

definition native_abort :: "addr \<Rightarrow> world \<Rightarrow> dom_error + world" where
  "native_abort t w =
     (case txn_at w t of
        None \<Rightarrow> Inl InvalidStateError
      | Some tx \<Rightarrow> (if tx_state tx = TxActive then Inr (abort_txn t w) else Inl InvalidStateError))"

definition native_commit :: "addr \<Rightarrow> world \<Rightarrow> dom_error + world" where
  "native_commit t w =
     (if txn_active w t then Inr (map_txn t (\<lambda>tx. tx\<lparr>tx_state := TxCommitting\<rparr>) w)
      else Inl InvalidStateError)"

definition native_objectStore :: "addr \<Rightarrow> string \<Rightarrow> world \<Rightarrow> dom_error + store_handle" where
  "native_objectStore t s w =
     (case txn_at w t of
        None \<Rightarrow> Inl InvalidStateError
      | Some tx \<Rightarrow>
          (if txn_finished w t then Inl InvalidStateError
           else if s \<notin> set (tx_scope tx) then Inl NotFoundError
           else Inr (StoreHandle t s)))"

text \<open>
  \<open>EventTarget.addEventListener\<close> ignores a listener already registered for the
  type; \<open>removeEventListener\<close> removes it; \<open>dispatchEvent\<close> runs the listeners
  for the type and returns \<open>false\<close> exactly when the event is cancelable and a
  listener cancelled it.
\<close>

definition native_addEventListener :: "addr \<Rightarrow> tx_event \<Rightarrow> callback \<Rightarrow> world \<Rightarrow> world" where
  "native_addEventListener t e cb =
     map_txn t (\<lambda>tx. if (e, cb) \<in> set (tx_listeners tx) then tx
                     else tx\<lparr>tx_listeners := tx_listeners tx @ [(e, cb)]\<rparr>)"

definition native_removeEventListener :: "addr \<Rightarrow> tx_event \<Rightarrow> callback \<Rightarrow> world \<Rightarrow> world" where
  "native_removeEventListener t e cb =
     map_txn t (\<lambda>tx. tx\<lparr>tx_listeners := removeAll (e, cb) (tx_listeners tx)\<rparr>)"

definition native_dispatchEvent :: "addr \<Rightarrow> tx_event \<Rightarrow> bool \<Rightarrow> world \<Rightarrow> bool \<times> world" where
  "native_dispatchEvent t e cancelable w =
     (let (w', cancelled) = fire_txn t e w in (\<not> (cancelable \<and> cancelled), w'))"

text \<open>
  \<open>IDBDatabase.transaction(names, mode)\<close>: \<open>InvalidStateError\<close> on a connection
  that is closing, \<open>NotFoundError\<close> for a store the database does not have,
  \<open>InvalidAccessError\<close> for an empty scope, \<open>TypeError\<close> for a mode other than
  read-only or read-write (absent is read-only). The new transaction is active and
  not yet started.
\<close>

definition conn_stores :: "world \<Rightarrow> addr \<Rightarrow> (string \<times> object_store) list option" where
  "conn_stores w c =
     (if c < length (w_conns w)
      then map_option db_stores (map_of (w_dbs w) (cn_db (w_conns w ! c))) else None)"

definition new_txn :: "addr \<Rightarrow> string list \<Rightarrow> tx_mode option \<Rightarrow> transaction" where
  "new_txn c names mode =
     \<lparr>tx_conn = c, tx_scope = sort (remdups names),
      tx_mode = (case mode of None \<Rightarrow> ReadOnly | Some m \<Rightarrow> m),
      tx_state = TxActive, tx_started = False, tx_pending = [],
      tx_backup = [], tx_listeners = []\<rparr>"

definition native_transaction ::
  "addr \<Rightarrow> string list \<Rightarrow> tx_mode option \<Rightarrow> world \<Rightarrow> dom_error + (addr \<times> world)" where
  "native_transaction c names mode w =
     (case conn_stores w c of
        None \<Rightarrow> Inl InvalidStateError
      | Some ss \<Rightarrow>
          (if cn_closed (w_conns w ! c) then Inl InvalidStateError
           else if \<not> list_all (\<lambda>n. map_of ss n \<noteq> None) names then Inl NotFoundError
           else if names = [] then Inl InvalidAccessError
           else if mode = Some VersionChange then Inl TypeError
           else (let (t, ts) = alloc (new_txn c names mode) (w_txns w) in Inr (t, w\<lparr>w_txns := ts\<rparr>))))"

definition native_close :: "addr \<Rightarrow> world \<Rightarrow> world" where
  "native_close c w = w\<lparr>w_conns := upd_at c (\<lambda>cn. cn\<lparr>cn_closed := True\<rparr>) (w_conns w)\<rparr>"

section \<open>Facts on placing and running requests\<close>

lemma place_request_eq [wrapper_simps]:
  "place_request t op w =
     (length (w_reqs w),
      map_txn t (\<lambda>tx. tx\<lparr>tx_pending := tx_pending tx @ [length (w_reqs w)]\<rparr>)
        (w\<lparr>w_reqs := w_reqs w @ [\<lparr>rq_txn = Some t, rq_op = op, rq_result = None, rq_listeners = []\<rparr>]\<rparr>))"
  by (simp add: place_request_def alloc_def)

text \<open>Every native method that does not throw places a request on its transaction.\<close>

lemma native_read_placed:
  "native_read op t s ix q w = Inr (r, w') \<Longrightarrow> (r, w') = place_request t (NRead op s ix q) w"
  by (simp add: native_read_def split: option.splits if_splits)

lemma native_read_counted_placed:
  "native_read_counted mk t s ix q c w = Inr (r, w') \<Longrightarrow>
     \<exists>n. (r, w') = place_request t (NRead (mk n) s ix q) w"
  by (auto simp: native_read_counted_def dest: native_read_placed split: sum.splits)

lemma native_store_placed:
  "native_store b t s v k w = Inr (r, w') \<Longrightarrow> \<exists>k'. (r, w') = place_request t (NStore b s v k') w"
  by (auto simp: native_store_def split: option.splits if_splits; metis)

lemma native_delete_placed:
  "native_delete t s q w = Inr (r, w') \<Longrightarrow> (r, w') = place_request t (NDelete s q) w"
  by (simp add: native_delete_def split: option.splits if_splits)

lemma native_clear_placed:
  "native_clear t s w = Inr (r, w') \<Longrightarrow> (r, w') = place_request t (NClear s) w"
  by (simp add: native_clear_def split: option.splits if_splits)

text \<open>Running an operation touches the databases only, and what it returns depends on the stores only.\<close>

lemma exec_native_frame:
  "exec_native t op w = Inr (v, w') \<Longrightarrow>
     w_reqs w' = w_reqs w \<and> w_proms w' = w_proms w \<and> w_txns w' = w_txns w \<and>
     w_conns w' = w_conns w \<and> w_log w' = w_log w"
  by (cases "exec_on_stores op (txn_stores w t)") (auto simp: exec_native_def)

lemma exec_native_cong:
  assumes "txn_stores w' t = txn_stores w t"
  shows "map_sum id fst (exec_native t op w') = map_sum id fst (exec_native t op w)"
  using assms by (simp add: exec_native_def sum.map_comp comp_def case_prod_beta')

text \<open>A successful operation names an existing store.\<close>

lemma exec_on_stores_store:
  "exec_on_stores op ss = Inr (v, ss') \<Longrightarrow> \<exists>s os. map_of ss s = Some os"
  by (auto simp: exec_on_stores_def split: native_op.splits option.splits sum.splits prod.splits)

lemma exec_native_stores:
  assumes "exec_on_stores op (txn_stores w t) = Inr (v, ss)"
  shows "exec_native t op w = Inr (v, set_txn_stores t ss w)"
    and "txn_stores (set_txn_stores t ss w) t = ss"
proof -
  show "exec_native t op w = Inr (v, set_txn_stores t ss w)"
    using assms by (simp add: exec_native_def)
  from exec_on_stores_store [OF assms] obtain s os where "store_of w t s = Some os"
    by (auto simp: store_of_def)
  then show "txn_stores (set_txn_stores t ss w) t = ss"
    by (rule txn_stores_set_txn_stores)
qed

text \<open>Firing a transaction event appends one log entry per listener for it, and nothing else.\<close>

lemma fold_call_listener:
  "fold (call_listener e) ls (w, c) =
     (w\<lparr>w_log := w_log w @ map (\<lambda>(e', cb). CalledBack cb e) (filter (\<lambda>(e', cb). e' = e) ls)\<rparr>,
      c \<or> list_ex (\<lambda>(e', cb). e' = e \<and> cb_cancels cb) ls)"
  by (induction ls arbitrary: w c) (auto simp: call_listener_def)

lemma fire_txn_eq:
  "fire_txn t e w =
     (case txn_at w t of
        None \<Rightarrow> (w, False)
      | Some tx \<Rightarrow>
          (w\<lparr>w_log := w_log w @ map (\<lambda>(e', cb). CalledBack cb e) (filter (\<lambda>(e', cb). e' = e) (tx_listeners tx))\<rparr>,
           list_ex (\<lambda>(e', cb). e' = e \<and> cb_cancels cb) (tx_listeners tx)))"
  by (simp add: fire_txn_def fold_call_listener split: option.split)

lemma fire_txn_frame [simp]:
  "w_reqs (fst (fire_txn t e w)) = w_reqs w" "w_proms (fst (fire_txn t e w)) = w_proms w"
  "w_txns (fst (fire_txn t e w)) = w_txns w" "w_dbs (fst (fire_txn t e w)) = w_dbs w"
  "w_conns (fst (fire_txn t e w)) = w_conns w"
  by (simp_all add: fire_txn_eq split: option.split)

section \<open>Running a request of the idiom\<close>

text \<open>
  The success listener of the idiom: \<open>resolve(req.result)\<close>, or
  \<open>resolve(undefined)\<close> for \<open>clear\<close> and \<open>delete\<close>.
\<close>

definition idiom_success :: "bool \<Rightarrow> addr \<Rightarrow> addr \<Rightarrow> handler" where
  "idiom_success u = (if u then (\<lambda>p r. ResolveUndefined p) else ResolveResult)"

lemma abort_txn_idle_proms:
  assumes "txn_at w t = Some tx" and "tx_pending tx = []"
  shows "w_proms (abort_txn t w) = w_proms w"
  using assms by (simp add: abort_txn_def Let_def)

lemma set_result_frame [simp]:
  "w_txns (set_result r x w) = w_txns w" "w_proms (set_result r x w) = w_proms w"
  "w_dbs (set_result r x w) = w_dbs w" "w_conns (set_result r x w) = w_conns w"
  by (simp_all add: set_result_def)

lemma req_at_set_result:
  "req_at w r = Some rq \<Longrightarrow> req_at (set_result r x w) r = Some (rq\<lparr>rq_result := Some x\<rparr>)"
  by (simp add: set_result_def req_at_map_req)

text \<open>
  A failed request rejects its promise with the error event; the abort that follows
  (when no listener of the transaction cancels the event) settles nothing else, the
  transaction having no other pending request.
\<close>

lemma run_idiom_error:
  assumes txn: "txn_at W t = Some tx" "tx_pending tx = []"
    and req: "req_at W r = Some rq" "rq_listeners rq = [(ReqSuccess, h), (ReqError, RejectEvent p)]"
    and pend: "p < length (w_proms W)" "w_proms W ! p = Pending"
  shows "w_proms (let (w3, cancelled) = fire_error t r e W in
                  if cancelled then w3 else abort_txn t w3) ! p = Rejected (RejEvent r)"
proof -
  define W2 where "W2 = reject_promise p (RejEvent r) (set_result r (Inl e) W)"
  have fire: "fire_request ReqError r 0 None (set_result r (Inl e) W) = W2"
    unfolding W2_def by (rule fire_idiom_error [OF req_at_set_result [OF req(1)]]) (simp add: req(2))
  have pW2: "w_proms W2 ! p = Rejected (RejEvent r)"
    using pend by (simp add: W2_def reject_promise_def)
  have tW2: "txn_at W2 t = Some tx"
    using txn txn_at_frame [of W2 W t] by (simp add: W2_def reject_promise_def)
  obtain w3 c where fe: "fire_txn t TxError W2 = (w3, c)" by fastforce
  have w3: "w_proms w3 = w_proms W2" "txn_at w3 t = txn_at W2 t"
    using fire_txn_frame [of t TxError W2] fe txn_at_frame [of w3 W2] by simp_all
  show ?thesis
    using fire fe w3 pW2 tW2 txn(2) by (simp add: fire_error_def abort_txn_idle_proms)
qed

lemma run_idiom_success:
  assumes req: "req_at W r = Some rq" "rq_listeners rq = [(ReqSuccess, idiom_success u p r), (ReqError, RejectEvent p)]"
    and pend: "p < length (w_proms W)" "w_proms W ! p = Pending"
    and ex: "exec_native t op W = Inr (v, w3)"
  shows "w_proms (fire_request ReqSuccess r 0 None (set_result r (Inr v) w3)) ! p =
           Fulfilled (if u then PJs JUndefined else v)"
proof -
  have fr: "w_reqs w3 = w_reqs W" "w_proms w3 = w_proms W"
    using exec_native_frame [OF ex] by simp_all
  have rq3: "req_at (set_result r (Inr v) w3) r = Some (rq\<lparr>rq_result := Some (Inr v)\<rparr>)"
    using req_at_set_result req(1) req_at_frame [of w3 W] fr by simp
  have "fire_request ReqSuccess r 0 None (set_result r (Inr v) w3) =
               run_handler r 0 None (idiom_success u p r) (set_result r (Inr v) w3)"
    by (rule fire_idiom_success [OF rq3]) (simp add: req(2))
  with rq3 pend fr show ?thesis
    by (simp add: idiom_success_def resolve_promise_def req_result_def)
qed

text \<open>
  The host runs the only pending request of a transaction whose promise is still
  pending: the promise ends fulfilled with the operation's result (or
  \<open>undefined\<close>), or rejected with the request's error event.
\<close>

lemma run_idiom_request:
  assumes txn: "txn_at W t = Some tx" "tx_pending tx = [r]"
    and req: "req_at W r = Some rq" "rq_listeners rq = [(ReqSuccess, idiom_success u p r), (ReqError, RejectEvent p)]"
    and pend: "p < length (w_proms W)" "w_proms W ! p = Pending"
  shows "w_proms (run_request t W) ! p =
           (case exec_native t (rq_op rq) (map_txn t (\<lambda>tx. tx\<lparr>tx_pending := []\<rparr>) W) of
              Inl e \<Rightarrow> Rejected (RejEvent r)
            | Inr (v, w3) \<Rightarrow> Fulfilled (if u then PJs JUndefined else v))"
proof -
  define W1 where "W1 = map_txn t (\<lambda>tx. tx\<lparr>tx_pending := []\<rparr>) W"
  have txn1: "txn_at W1 t = Some (tx\<lparr>tx_pending := []\<rparr>)"
    using txn by (simp add: W1_def txn_at_map_txn)
  have req1: "req_at W1 r = Some rq"
    using req req_at_frame [of W1 W] by (simp add: W1_def)
  have pend1: "p < length (w_proms W1)" "w_proms W1 ! p = Pending"
    using pend by (simp_all add: W1_def)
  have run: "run_request t W =
     (case exec_native t (rq_op rq) W1 of
        Inr (v, w3) \<Rightarrow> fire_request ReqSuccess r 0 None (set_result r (Inr v) w3)
      | Inl e \<Rightarrow> (let (w3, cancelled) = fire_error t r e W1 in
                  if cancelled then w3 else abort_txn t w3))"
    using txn req1 unfolding W1_def by (simp add: run_request_def Let_def)
  show ?thesis
  proof (cases "exec_native t (rq_op rq) W1")
    case (Inl e)
    then show ?thesis
      using run run_idiom_error [OF txn1 _ req1 req(2) pend1, of e] by (simp add: W1_def)
  next
    case (Inr vw)
    then obtain v w3 where "exec_native t (rq_op rq) W1 = Inr (v, w3)" by (cases vw) auto
    then show ?thesis
      using run run_idiom_success [OF req1 req(2) pend1] by (simp add: W1_def)
  qed
qed

text \<open>
  The world right after the idiom placed its request: the new promise pending, the
  new request carrying the two listeners, the transaction's request list extended.
\<close>

lemma promisify_placed:
  fixes h :: "addr \<Rightarrow> addr \<Rightarrow> handler"
  assumes native: "native (snd (new_promise w)) = Inr (r, w2)"
    and placed: "(r, w2) = place_request t op (snd (new_promise w))"
    and txn: "txn_at w t = Some tx"
  defines "p \<equiv> length (w_proms w)" and "W \<equiv> snd (promisify h native w)"
  shows "r = length (w_reqs w)"
    and "req_at W r = Some \<lparr>rq_txn = Some t, rq_op = op, rq_result = None,
                            rq_listeners = [(ReqSuccess, h p r), (ReqError, RejectEvent p)]\<rparr>"
    and "p < length (w_proms W)" and "w_proms W ! p = Pending"
    and "txn_at W t = Some (tx\<lparr>tx_pending := tx_pending tx @ [r]\<rparr>)"
    and "txn_stores W t = txn_stores w t"
proof -
  show r: "r = length (w_reqs w)"
    using placed by (simp add: place_request_eq new_promise_eq)
  have W: "W = add_req_listener r ReqError (RejectEvent p) (add_req_listener r ReqSuccess (h p r) w2)"
    using native by (simp add: W_def p_def promisify_Inr)
  show "req_at W r = Some \<lparr>rq_txn = Some t, rq_op = op, rq_result = None,
                            rq_listeners = [(ReqSuccess, h p r), (ReqError, RejectEvent p)]\<rparr>"
    using placed r by (simp add: W place_request_eq new_promise_eq add_req_listener_def
        map_req_def req_at_def)
  show "p < length (w_proms W)" "w_proms W ! p = Pending"
    using placed by (simp_all add: W p_def place_request_eq new_promise_eq)
  have txn2: "txn_at w2 t = Some (tx\<lparr>tx_pending := tx_pending tx @ [r]\<rparr>)"
    using placed txn r by (simp add: place_request_eq new_promise_eq txn_at_map_txn)
  then show "txn_at W t = Some (tx\<lparr>tx_pending := tx_pending tx @ [r]\<rparr>)"
    using txn_at_frame [of W w2] by (simp add: W)
  have "txn_stores W t = txn_stores w2 t"
    by (rule txn_stores_frame) (simp_all add: W)
  also have "\<dots> = txn_stores w t"
    using placed by (simp add: place_request_eq new_promise_eq txn_stores_map_txn)
  finally show "txn_stores W t = txn_stores w t" .
qed

text \<open>
  The idiom, end to end: on a transaction with no other pending request, the promise
  of a call is rejected with the native exception when the native method throws,
  and otherwise, once the host ran the request, settled as the request: fulfilled
  with the operation's result (or \<open>undefined\<close>), or rejected with its error event.
\<close>

lemma promisify_settles_as_native:
  assumes txn: "txn_at w t = Some tx" "tx_pending tx = []"
    and native: "\<And>r w2. native (snd (new_promise w)) = Inr (r, w2) \<Longrightarrow>
                    \<exists>op. (r, w2) = place_request t op (snd (new_promise w))"
  shows "w_proms (run_request t (snd (promisify (idiom_success u) native w))) ! length (w_proms w) =
     (case native (snd (new_promise w)) of
        Inl e \<Rightarrow> Rejected (RejException e)
      | Inr (r, w2) \<Rightarrow>
          (case exec_native t (rq_op (w_reqs w2 ! r)) w2 of
             Inl e \<Rightarrow> Rejected (RejEvent r)
           | Inr (v, w3) \<Rightarrow> Fulfilled (if u then PJs JUndefined else v)))"
proof (cases "native (snd (new_promise w))")
  case (Inl e)
  then have "snd (promisify (idiom_success u) native w) =
               reject_promise (length (w_proms w)) (RejException e) (snd (new_promise w))"
    by (simp add: promisify_Inl)
  moreover have "run_request t (reject_promise (length (w_proms w)) (RejException e) (snd (new_promise w))) =
                 reject_promise (length (w_proms w)) (RejException e) (snd (new_promise w))"
    using txn txn_at_frame [of "reject_promise _ _ (snd (new_promise w))" w t]
    by (simp add: run_request_def reject_promise_def new_promise_eq)
  ultimately show ?thesis
    using Inl by (simp add: reject_promise_def new_promise_eq)
next
  case (Inr rw)
  then obtain r w2 where nat: "native (snd (new_promise w)) = Inr (r, w2)" by (cases rw) auto
  with native obtain op where pl: "(r, w2) = place_request t op (snd (new_promise w))" by blast
  note f1 = promisify_placed(1) [where native = native and w = w, OF nat pl txn(1)]
  note facts = promisify_placed(2-6) [where native = native and w = w and h = "idiom_success u", OF nat pl txn(1)]
  let ?W = "snd (promisify (idiom_success u) native w)"
  let ?W1 = "map_txn t (\<lambda>tx. tx\<lparr>tx_pending := []\<rparr>) ?W"
  have same: "map_sum id fst (exec_native t op ?W1) = map_sum id fst (exec_native t op w2)"
  proof (rule exec_native_cong)
    have "txn_stores w2 t = txn_stores w t"
      using pl by (simp add: place_request_eq new_promise_eq txn_stores_map_txn)
    then show "txn_stores ?W1 t = txn_stores w2 t"
      using facts(5) by (simp add: txn_stores_map_txn)
  qed
  have rq: "w_reqs w2 ! r = \<lparr>rq_txn = Some t, rq_op = op, rq_result = None, rq_listeners = []\<rparr>"
    using pl f1 by (simp add: place_request_eq new_promise_eq)
  note run = run_idiom_request [where u = u, OF facts(4) _ facts(1) _ facts(2,3)]
  show ?thesis
  proof (cases "exec_native t op w2")
    case (Inl e)
    with same have "exec_native t op ?W1 = Inl e"
      by (cases "exec_native t op ?W1") auto
    with Inl run txn(2) nat rq show ?thesis by simp
  next
    case (Inr vw)
    with same obtain w3 where "exec_native t op ?W1 = Inr (fst vw, w3)"
      by (cases "exec_native t op ?W1") auto
    with Inr run txn(2) nat rq show ?thesis by (cases vw) simp
  qed
qed

section \<open>The state after the idiom's request ran\<close>

lemma run_handler_idiom_frame:
  assumes "h \<in> {ResolveResult p r', ResolveUndefined p, RejectEvent p}"
  shows "w_txns (run_handler r o' n h w) = w_txns w" "w_dbs (run_handler r o' n h w) = w_dbs w"
    and "w_conns (run_handler r o' n h w) = w_conns w" "w_reqs (run_handler r o' n h w) = w_reqs w"
  using assms by (auto simp: resolve_promise_def reject_promise_def split: option.splits sum.splits)

lemma idiom_success_in: "idiom_success u p r \<in> {ResolveResult p r, ResolveUndefined p, RejectEvent p}"
  by (simp add: idiom_success_def)

lemma new_promise_views [simp]:
  "txn_at (snd (new_promise w)) t = txn_at w t" "txn_stores (snd (new_promise w)) t = txn_stores w t"
  "store_of (snd (new_promise w)) t s = store_of w t s"
  "txn_active (snd (new_promise w)) t = txn_active w t"
  "txn_writable (snd (new_promise w)) t = txn_writable w t"
  by (simp_all add: new_promise_eq store_of_def txn_active_def txn_writable_def)

text \<open>
  When the idiom's request succeeds, the transaction is back to no pending request
  and its database holds the stores the operation produced.
\<close>

lemma promisify_run_state:
  assumes txn: "txn_at w t = Some tx" "tx_pending tx = []"
    and nat: "native (snd (new_promise w)) = Inr (r, w2)"
    and pl: "(r, w2) = place_request t op (snd (new_promise w))"
    and ex: "exec_on_stores op (txn_stores w t) = Inr (v, ss)"
  shows "txn_at (run_request t (snd (promisify (idiom_success u) native w))) t = Some tx"
    and "txn_stores (run_request t (snd (promisify (idiom_success u) native w))) t = ss"
proof -
  note f1 = promisify_placed(1) [where native = native and w = w, OF nat pl txn(1)]
  note facts = promisify_placed(2-6) [where native = native and w = w and h = "idiom_success u", OF nat pl txn(1)]
  let ?p = "length (w_proms w)"
  let ?W = "snd (promisify (idiom_success u) native w)"
  let ?W1 = "map_txn t (\<lambda>tx. tx\<lparr>tx_pending := []\<rparr>) ?W"
  have st1: "txn_stores ?W1 t = txn_stores w t"
    using facts(5) by (simp add: txn_stores_map_txn)
  have ex1: "exec_native t op ?W1 = Inr (v, set_txn_stores t ss ?W1)"
    and ss1: "txn_stores (set_txn_stores t ss ?W1) t = ss"
    using exec_native_stores [of op ?W1 t v ss] ex st1 by simp_all
  have tx1: "txn_at (set_txn_stores t ss ?W1) t = Some tx"
    using facts(4) txn(2) txn_at_frame [of "set_txn_stores t ss ?W1" ?W1 t]
    by (simp add: txn_at_map_txn)
  have req1: "req_at ?W1 r = Some \<lparr>rq_txn = Some t, rq_op = op, rq_result = None,
                 rq_listeners = [(ReqSuccess, idiom_success u ?p r), (ReqError, RejectEvent ?p)]\<rparr>"
    using facts(1) req_at_frame [of ?W1 ?W] by simp
  define W2 where "W2 = set_result r (Inr v) (set_txn_stores t ss ?W1)"
  have req2: "req_at W2 r = Some \<lparr>rq_txn = Some t, rq_op = op, rq_result = Some (Inr v),
                 rq_listeners = [(ReqSuccess, idiom_success u ?p r), (ReqError, RejectEvent ?p)]\<rparr>"
    using req1 req_at_frame [of "set_txn_stores t ss ?W1" ?W1] unfolding W2_def
    by (simp add: req_at_set_result)
  have run: "run_request t ?W = fire_request ReqSuccess r 0 None W2"
    using facts(4) txn(2) req1 ex1 by (simp add: run_request_def W2_def)
  also have "\<dots> = run_handler r 0 None (idiom_success u ?p r) W2"
    by (rule fire_idiom_success [OF req2]) simp
  finally have run': "run_request t ?W = run_handler r 0 None (idiom_success u ?p r) W2" .
  have W2: "w_txns W2 = w_txns (set_txn_stores t ss ?W1)" "w_dbs W2 = w_dbs (set_txn_stores t ss ?W1)"
    "w_conns W2 = w_conns (set_txn_stores t ss ?W1)"
    by (simp_all add: W2_def)
  show "txn_at (run_request t ?W) t = Some tx"
    using run' tx1 W2 run_handler_idiom_frame [OF idiom_success_in] txn_at_frame by metis
  show "txn_stores (run_request t ?W) t = ss"
    using run' ss1 W2 run_handler_idiom_frame [OF idiom_success_in] txn_stores_frame by metis
qed

lemma native_store_ok:
  assumes "store_of w t s = Some os" "txn_active w t" "txn_writable w t" "os_keyPath os = None"
  shows "native_store b t s v (Some k) w = Inr (place_request t (NStore b s v (Some k)) w)"
  using assms by (simp add: native_store_def)

lemma native_read_ok:
  assumes "store_of w t s = Some os" "txn_active w t" "q \<noteq> QNone"
  shows "native_read op t s None q w = Inr (place_request t (NRead op s None q) w)"
  using assms by (simp add: native_read_def)

text \<open>The end-to-end fact for a native call known to place its request.\<close>

lemma promisify_settles_placed:
  assumes txn: "txn_at w t = Some tx" "tx_pending tx = []"
    and nat: "native (snd (new_promise w)) = Inr (place_request t op (snd (new_promise w)))"
  shows "w_proms (run_request t (snd (promisify (idiom_success u) native w))) ! length (w_proms w) =
           (case exec_on_stores op (txn_stores w t) of
              Inl e \<Rightarrow> Rejected (RejEvent (length (w_reqs w)))
            | Inr (v, ss) \<Rightarrow> Fulfilled (if u then PJs JUndefined else v))"
proof -
  obtain r w2 where pl: "place_request t op (snd (new_promise w)) = (r, w2)" by fastforce
  have r: "r = length (w_reqs w)" and rq: "rq_op (w_reqs w2 ! r) = op"
    and st: "txn_stores w2 t = txn_stores w t"
    using pl by (auto simp: place_request_eq new_promise_eq txn_stores_map_txn)
  have "w_proms (run_request t (snd (promisify (idiom_success u) native w))) ! length (w_proms w) =
     (case exec_native t op w2 of
        Inl e \<Rightarrow> Rejected (RejEvent r)
      | Inr (v, w3) \<Rightarrow> Fulfilled (if u then PJs JUndefined else v))"
  proof -
    have plc: "\<And>r' w2'. native (snd (new_promise w)) = Inr (r', w2') \<Longrightarrow>
            \<exists>op. (r', w2') = place_request t op (snd (new_promise w))"
      using nat by (metis sum.inject(2))
    show ?thesis
      using promisify_settles_as_native [where u = u and native = native, OF txn plc] nat pl rq
      by simp
  qed
  then show ?thesis
    using st r by (simp add: exec_native_def split: sum.splits prod.splits)
qed

text \<open>
  A request that fails, its error event not cancelled by a listener of the
  transaction, leaves the transaction aborted.
\<close>

lemma abort_txn_state:
  assumes "txn_at w t = Some tx" "tx_pending tx = []"
  shows "txn_at (abort_txn t w) t = Some (tx\<lparr>tx_state := TxAborted\<rparr>)"
proof -
  let ?w1 = "map_txn t (\<lambda>tx. tx\<lparr>tx_state := TxAborted, tx_pending := []\<rparr>) w"
  have "txn_at ?w1 t = Some (tx\<lparr>tx_state := TxAborted\<rparr>)"
    using assms by (simp add: txn_at_map_txn)
  moreover have "w_txns (abort_txn t w) = w_txns ?w1"
    using assms by (simp add: abort_txn_def Let_def)
  ultimately show ?thesis
    using txn_at_frame [of "abort_txn t w" ?w1 t] by simp
qed

lemma promisify_run_error_state:
  assumes txn: "txn_at w t = Some tx" "tx_pending tx = []"
    and nocancel: "\<not> list_ex (\<lambda>(e', cb). e' = TxError \<and> cb_cancels cb) (tx_listeners tx)"
    and nat: "native (snd (new_promise w)) = Inr (place_request t op (snd (new_promise w)))"
    and ex: "exec_on_stores op (txn_stores w t) = Inl e"
  shows "txn_at (run_request t (snd (promisify (idiom_success u) native w))) t =
           Some (tx\<lparr>tx_state := TxAborted\<rparr>)"
proof -
  obtain r w2 where pl: "place_request t op (snd (new_promise w)) = (r, w2)" by fastforce
  note nat' = nat [unfolded pl]
  note facts = promisify_placed(2-6) [where native = native and w = w and h = "idiom_success u",
      OF nat' pl [symmetric] txn(1)]
  let ?p = "length (w_proms w)"
  let ?W = "snd (promisify (idiom_success u) native w)"
  let ?W1 = "map_txn t (\<lambda>tx. tx\<lparr>tx_pending := []\<rparr>) ?W"
  have ex1: "exec_native t op ?W1 = Inl e"
    using facts(5) ex by (simp add: exec_native_def txn_stores_map_txn)
  have tx1: "txn_at ?W1 t = Some tx"
    using facts(4) txn(2) by (simp add: txn_at_map_txn)
  have req1: "req_at ?W1 r = Some \<lparr>rq_txn = Some t, rq_op = op, rq_result = None,
                 rq_listeners = [(ReqSuccess, idiom_success u ?p r), (ReqError, RejectEvent ?p)]\<rparr>"
    using facts(1) req_at_frame [of ?W1 ?W] by simp
  define X where "X = reject_promise ?p (RejEvent r) (set_result r (Inl e) ?W1)"
  have fire: "fire_request ReqError r 0 None (set_result r (Inl e) ?W1) = X"
    unfolding X_def by (rule fire_idiom_error [OF req_at_set_result [OF req1]]) simp
  have txX: "txn_at X t = Some tx"
    using tx1 txn_at_frame [of X ?W1 t] by (simp add: X_def reject_promise_def)
  have fe: "fire_error t r e ?W1 = (fst (fire_txn t TxError X), False)"
    using fire txX nocancel by (simp add: fire_error_def fire_txn_eq)
  have "txn_at (fst (fire_txn t TxError X)) t = Some tx"
    using txX txn_at_frame [of "fst (fire_txn t TxError X)" X t] by simp
  then have "txn_at (abort_txn t (fst (fire_txn t TxError X))) t = Some (tx\<lparr>tx_state := TxAborted\<rparr>)"
    using abort_txn_state txn(2) by blast
  moreover have "run_request t ?W = abort_txn t (fst (fire_txn t TxError X))"
    using facts(4) txn(2) req1 ex1 fe by (simp add: run_request_def)
  ultimately show ?thesis by simp
qed

text \<open>
  A native call that places its request and whose operation succeeds: the promise is
  fulfilled, the transaction back to no pending request, its stores those the
  operation produced.
\<close>

lemma promisify_run_ok:
  assumes txn: "txn_at w t = Some tx" "tx_pending tx = []"
    and nat: "native (snd (new_promise w)) = Inr (place_request t op (snd (new_promise w)))"
    and ex: "exec_on_stores op (txn_stores w t) = Inr (v, ss)"
  shows "w_proms (run_request t (snd (promisify (idiom_success u) native w))) ! length (w_proms w) =
           Fulfilled (if u then PJs JUndefined else v)"
    and "txn_at (run_request t (snd (promisify (idiom_success u) native w))) t = Some tx"
    and "store_of (run_request t (snd (promisify (idiom_success u) native w))) t s = map_of ss s"
proof -
  obtain r w2 where pl: "place_request t op (snd (new_promise w)) = (r, w2)" by fastforce
  note run = promisify_run_state [where native = native and u = u, OF txn nat [unfolded pl] pl [symmetric] ex]
  show "w_proms (run_request t (snd (promisify (idiom_success u) native w))) ! length (w_proms w) =
           Fulfilled (if u then PJs JUndefined else v)"
    using promisify_settles_placed [where native = native and u = u, OF txn nat] ex by simp
  show "txn_at (run_request t (snd (promisify (idiom_success u) native w))) t = Some tx"
    by (rule run(1))
  show "store_of (run_request t (snd (promisify (idiom_success u) native w))) t s = map_of ss s"
    using run(2) by (simp add: store_of_def)
qed

text \<open>The synchronous checks of the remaining methods passed.\<close>

lemma native_read_counted_ok:
  assumes "store_of w t s = Some os" "txn_active w t" "convert_count c = Inr n" "\<not> needs_query (mk n)"
  shows "native_read_counted mk t s None q c w = Inr (place_request t (NRead (mk n) s None q) w)"
  using assms by (simp add: native_read_counted_def native_read_def)

lemma native_delete_ok:
  assumes "store_of w t s = Some os" "txn_active w t" "txn_writable w t" "q \<noteq> QNone"
  shows "native_delete t s q w = Inr (place_request t (NDelete s q) w)"
  using assms by (simp add: native_delete_def)

lemma native_clear_ok:
  assumes "store_of w t s = Some os" "txn_active w t" "txn_writable w t"
  shows "native_clear t s w = Inr (place_request t (NClear s) w)"
  using assms by (simp add: native_clear_def)

lemma index_read_counted_ok:
  assumes "store_of w t s = Some os" "map_of (os_indexes os) i = Some d" "txn_active w t"
    "convert_count c = Inr n" "\<not> needs_query (mk n)"
  shows "native_read_counted mk t s (Some i) q c w = Inr (place_request t (NRead (mk n) s (Some i) q) w)"
  using assms by (simp add: native_read_counted_def native_read_def)

section \<open>Connections, abort and new transactions\<close>

lemma fire_error_conns [simp]: "w_conns (fst (fire_error t r e w)) = w_conns w"
  by (simp add: fire_error_def set_result_def)

lemma fold_fire_error_conns:
  "w_conns (fold (\<lambda>r w. fst (fire_error t r e w)) rs w) = w_conns w"
  by (induction rs arbitrary: w) auto

lemma abort_txn_conns [simp]: "w_conns (abort_txn t w) = w_conns w"
  by (simp add: abort_txn_def Let_def fold_fire_error_conns split: option.split)

lemma run_request_conns [simp]: "w_conns (run_request t w) = w_conns w"
proof -
  have fe: "w_conns w2 = w_conns w1" if "fire_error t r e w1 = (w2, c)" for t r e w1 w2 c
    using fire_error_conns [of t r e w1] that by simp
  show ?thesis
    by (auto simp: run_request_def Let_def dest!: fe exec_native_frame
        split: option.split list.split sum.split prod.split)
qed

lemma promisify_placed_conns:
  "native (snd (new_promise w)) = Inr (place_request t op (snd (new_promise w))) \<Longrightarrow>
     w_conns (snd (promisify h native w)) = w_conns w"
  by (simp add: promisify_def new_promise_eq place_request_eq add_req_listener_def Let_def)

text \<open>
  Aborting a started read-write transaction writes its backup back over the stores
  of its database.
\<close>

lemma abort_txn_stores:
  assumes txn: "txn_at w t = Some tx" "tx_pending tx = []" "tx_started tx" "tx_mode tx = ReadWrite"
    and st: "store_of w t s = Some os"
  shows "txn_stores (abort_txn t w) t =
           fold (\<lambda>(n, os) ss. AList.update n os ss) (tx_backup tx) (txn_stores w t)"
proof -
  let ?w1 = "map_txn t (\<lambda>tx. tx\<lparr>tx_state := TxAborted, tx_pending := []\<rparr>) w"
  let ?F = "fold (\<lambda>(n, os) ss. AList.update n os ss) (tx_backup tx) (txn_stores w t)"
  have s1: "txn_stores ?w1 t = txn_stores w t"
    by (simp add: txn_stores_map_txn)
  then have "store_of ?w1 t s = Some os"
    using st by (simp add: store_of_def)
  then have s2: "txn_stores (set_txn_stores t ?F ?w1) t = ?F"
    by (rule txn_stores_set_txn_stores)
  have "abort_txn t w = fst (fire_txn t TxAbort (set_txn_stores t ?F ?w1))"
    using txn s1 by (simp add: abort_txn_def Let_def)
  then show ?thesis
    using s2 txn_stores_frame [of "abort_txn t w" "set_txn_stores t ?F ?w1" t] by simp
qed

lemma conn_stores_txn:
  assumes "txn_at w t = Some tx" "store_of w t s = Some os"
  shows "conn_stores w (tx_conn tx) = Some (txn_stores w t)"
  using assms
  by (auto simp: conn_stores_def store_of_def txn_stores_def txn_db_name_def split: if_splits option.splits)

lemma native_transaction_ok:
  assumes "conn_stores w c = Some ss" "\<not> cn_closed (w_conns w ! c)" "names \<noteq> []"
    "list_all (\<lambda>n. map_of ss n \<noteq> None) names" "mode \<noteq> Some VersionChange"
  shows "native_transaction c names mode w =
           Inr (length (w_txns w), w\<lparr>w_txns := w_txns w @ [new_txn c names mode]\<rparr>)"
  using assms by (simp add: native_transaction_def new_txn_def alloc_def)

lemma new_txn_stores:
  assumes "conn_stores w c = Some ss"
  shows "txn_at (w\<lparr>w_txns := w_txns w @ [new_txn c names mode]\<rparr>) (length (w_txns w)) = Some (new_txn c names mode)"
    and "txn_stores (w\<lparr>w_txns := w_txns w @ [new_txn c names mode]\<rparr>) (length (w_txns w)) = ss"
  using assms
  by (auto simp: txn_at_def txn_stores_def txn_db_name_def conn_stores_def new_txn_def
      split: if_splits option.splits)

text \<open>
  A native call that places its request and whose operation fails, the error event
  cancelled by no listener of the transaction: the promise is rejected with the
  event and the transaction aborted.
\<close>

lemma promisify_run_fails:
  assumes txn: "txn_at w t = Some tx" "tx_pending tx = []"
    and nocancel: "\<not> list_ex (\<lambda>(e', cb). e' = TxError \<and> cb_cancels cb) (tx_listeners tx)"
    and nat: "native (snd (new_promise w)) = Inr (place_request t op (snd (new_promise w)))"
    and ex: "exec_on_stores op (txn_stores w t) = Inl e"
  shows "w_proms (run_request t (snd (promisify (idiom_success u) native w))) ! length (w_proms w) =
           Rejected (RejEvent (length (w_reqs w)))"
    and "map_option tx_state (txn_at (run_request t (snd (promisify (idiom_success u) native w))) t) =
           Some TxAborted"
  using promisify_settles_placed [where u = u and native = native, OF txn nat] ex
    promisify_run_error_state [where u = u and native = native, OF txn nocancel nat ex]
  by simp_all

end
