(* ===== verification/IDB_Fixtures.thy ===== *)
theory IDB_Fixtures
  imports IDB_Host
begin

text \<open>
  Concrete host states the witnesses of the component theories evaluate on: a
  database \<open>shop\<close> at version 1 with an auto-increment store \<open>items\<close> (out-of-line
  keys) holding one record, and a store \<open>people\<close> with in-line keys at
  \<open>id\<close> and a unique index \<open>by_name\<close>; one open connection and one started
  read-write transaction over both stores.
\<close>

definition pen :: jsval where
  "pen = JObj [(''name'', JStr ''pen'')]"

definition items_store :: object_store where
  "items_store = (empty_store None True)\<lparr>os_records := [(KNum 1, pen)], os_generator := Some 2\<rparr>"

definition ann :: jsval where
  "ann = JObj [(''id'', JNum 7), (''name'', JStr ''ann'')]"

definition bob :: jsval where
  "bob = JObj [(''id'', JNum 9), (''name'', JStr ''bob'')]"

definition by_name :: index_def where
  "by_name = \<lparr>ix_keyPath = ''name'', ix_unique = True, ix_multiEntry = False\<rparr>"

definition people_store :: object_store where
  "people_store =
     \<lparr>os_keyPath = Some ''id'', os_generator = None,
      os_records = [(KNum 7, ann), (KNum 9, bob)], os_indexes = [(''by_name'', by_name)]\<rparr>"

definition shop_stores :: "(string \<times> object_store) list" where
  "shop_stores = [(''items'', items_store), (''people'', people_store)]"

definition demo_txn :: transaction where
  "demo_txn =
     \<lparr>tx_conn = 0, tx_scope = [''items'', ''people''], tx_mode = ReadWrite, tx_state = TxActive,
      tx_started = True, tx_pending = [], tx_backup = shop_stores, tx_listeners = []\<rparr>"

definition demo_world :: world where
  "demo_world =
     empty_world\<lparr>w_dbs := [(''shop'', \<lparr>db_version = 1, db_stores = shop_stores\<rparr>)],
                 w_conns := [\<lparr>cn_db = ''shop'', cn_closed = False\<rparr>],
                 w_txns := [demo_txn]\<rparr>"

text \<open>
  Migrations for \<open>openDatabase\<close>: the one of the \<open>shop\<close> scenario creates the
  auto-increment store \<open>items\<close> when upgrading from version 0; the faulty one
  creates it twice, and the second \<open>createObjectStore\<close> throws.
\<close>

definition shop_migration :: migration where
  "shop_migration old new = (if old < 1 then [CreateObjectStore ''items'' None True] else [])"

definition bad_migration :: migration where
  "bad_migration old new = [CreateObjectStore ''items'' None True, CreateObjectStore ''items'' None True]"

definition cup :: jsval where
  "cup = JObj [(''name'', JStr ''cup'')]"

text \<open>The key range \<open>IDBKeyRange.lowerBound("a")\<close>.\<close>

definition from_a :: key_range where
  "from_a = \<lparr>kr_lower = Some (KStr ''a''), kr_upper = None, kr_lowerOpen = False, kr_upperOpen = False\<rparr>"

lemma demo_world_txn: "txn_at demo_world 0 = Some demo_txn \<and> tx_pending demo_txn = []"
  by code_simp

end
