(* ===== verification/Index_Wrapper.thy ===== *)
theory Index_Wrapper
  imports IDB_Fixtures
begin

text \<open>
  \<open>PromisedIndexedDbIndex\<close> (\<open>src/src/index.ts\<close>, lines 3--113): the read-only
  index wrapper. Its getters read the host index's attributes; \<open>objectStore\<close>
  wraps the index's store handle anew on every read; its five query methods are the
  request-to-promise idiom over the native index methods.
\<close>

section \<open>Getters\<close>

definition index_name :: "promised_index \<Rightarrow> string" where
  "index_name x = (case x of PromisedIndexedDbIndex (IndexHandle t s i) \<Rightarrow> i)"

definition index_objectStore :: "promised_index \<Rightarrow> promised_store" where
  "index_objectStore x =
     (case x of PromisedIndexedDbIndex (IndexHandle t s i) \<Rightarrow>
        PromisedIndexedDbObjectStore (StoreHandle t s))"

definition index_keyPath :: "promised_index \<Rightarrow> world \<Rightarrow> string option" where
  "index_keyPath x w =
     (case x of PromisedIndexedDbIndex (IndexHandle t s i) \<Rightarrow>
        map_option ix_keyPath (index_def_at w t s i))"

definition index_multiEntry :: "promised_index \<Rightarrow> world \<Rightarrow> bool option" where
  "index_multiEntry x w =
     (case x of PromisedIndexedDbIndex (IndexHandle t s i) \<Rightarrow>
        map_option ix_multiEntry (index_def_at w t s i))"

definition index_unique :: "promised_index \<Rightarrow> world \<Rightarrow> bool option" where
  "index_unique x w =
     (case x of PromisedIndexedDbIndex (IndexHandle t s i) \<Rightarrow>
        map_option ix_unique (index_def_at w t s i))"

section \<open>Query methods\<close>

text \<open>Each returns the address of the new promise and the world after the call.\<close>

definition index_count :: "promised_index \<Rightarrow> query \<Rightarrow> world \<Rightarrow> addr \<times> world" where
  "index_count x q =
     (case x of PromisedIndexedDbIndex (IndexHandle t s i) \<Rightarrow>
        promisify ResolveResult (native_read RCount t s (Some i) q))"

definition index_get :: "promised_index \<Rightarrow> query \<Rightarrow> world \<Rightarrow> addr \<times> world" where
  "index_get x q =
     (case x of PromisedIndexedDbIndex (IndexHandle t s i) \<Rightarrow>
        promisify ResolveResult (native_read RGet t s (Some i) q))"

definition index_getAll :: "promised_index \<Rightarrow> query \<Rightarrow> int option \<Rightarrow> world \<Rightarrow> addr \<times> world" where
  "index_getAll x q c =
     (case x of PromisedIndexedDbIndex (IndexHandle t s i) \<Rightarrow>
        promisify ResolveResult (native_read_counted RGetAll t s (Some i) q c))"

definition index_getAllKeys :: "promised_index \<Rightarrow> query \<Rightarrow> int option \<Rightarrow> world \<Rightarrow> addr \<times> world" where
  "index_getAllKeys x q c =
     (case x of PromisedIndexedDbIndex (IndexHandle t s i) \<Rightarrow>
        promisify ResolveResult (native_read_counted RGetAllKeys t s (Some i) q c))"

definition index_getKey :: "promised_index \<Rightarrow> query \<Rightarrow> world \<Rightarrow> addr \<times> world" where
  "index_getKey x q =
     (case x of PromisedIndexedDbIndex (IndexHandle t s i) \<Rightarrow>
        promisify ResolveResult (native_read RGetKey t s (Some i) q))"

section \<open>The query methods as one interface\<close>

text \<open>
  The five promise-returning methods as a datatype of calls, with the native read
  each one makes; \<open>index_call\<close> dispatches to the methods above.
\<close>

datatype index_op =
    ICount query
  | IGet query
  | IGetAll query "int option"
  | IGetAllKeys query "int option"
  | IGetKey query

fun index_call :: "promised_index \<Rightarrow> index_op \<Rightarrow> world \<Rightarrow> addr \<times> world" where
  "index_call x (ICount q) = index_count x q"
| "index_call x (IGet q) = index_get x q"
| "index_call x (IGetAll q c) = index_getAll x q c"
| "index_call x (IGetAllKeys q c) = index_getAllKeys x q c"
| "index_call x (IGetKey q) = index_getKey x q"

fun index_native :: "addr \<Rightarrow> string \<Rightarrow> string \<Rightarrow> index_op \<Rightarrow> world \<Rightarrow> dom_error + (addr \<times> world)" where
  "index_native t s i (ICount q) = native_read RCount t s (Some i) q"
| "index_native t s i (IGet q) = native_read RGet t s (Some i) q"
| "index_native t s i (IGetAll q c) = native_read_counted RGetAll t s (Some i) q c"
| "index_native t s i (IGetAllKeys q c) = native_read_counted RGetAllKeys t s (Some i) q c"
| "index_native t s i (IGetKey q) = native_read RGetKey t s (Some i) q"

section \<open>Every query settles its promise as the native request settles\<close>

lemma index_call_promisify:
  "index_call (PromisedIndexedDbIndex (IndexHandle t s i)) c =
     promisify (idiom_success False) (index_native t s i c)"
  by (cases c) (simp_all add: idiom_success_def index_count_def index_get_def index_getAll_def
      index_getAllKeys_def index_getKey_def)

lemma index_native_placed:
  "index_native t s i c w = Inr (r, w') \<Longrightarrow> \<exists>op. (r, w') = place_request t op w"
  by (cases c) (auto dest: native_read_placed native_read_counted_placed)

text \<open>
  C7. For every query method of the index wrapper, called on a transaction with no
  other pending request: if the native method throws, the returned promise is
  already rejected with that exception; otherwise, once the host has run the
  request, it is fulfilled with the request's result or rejected with its error
  event, exactly as the native request settled.
\<close>

theorem index_call_settles_as_native:
  assumes "txn_at w t = Some tx" and "tx_pending tx = []"
  shows "w_proms (run_request t (snd (index_call (PromisedIndexedDbIndex (IndexHandle t s i)) c w)))
           ! length (w_proms w) =
     (case index_native t s i c (snd (new_promise w)) of
        Inl e \<Rightarrow> Rejected (RejException e)
      | Inr (r, w2) \<Rightarrow>
          (case exec_native t (rq_op (w_reqs w2 ! r)) w2 of
             Inl e \<Rightarrow> Rejected (RejEvent r)
           | Inr (v, w3) \<Rightarrow> Fulfilled v))"
  unfolding index_call_promisify
  by (rule promisify_settles_as_native [where u = False, unfolded if_False, OF assms])
     (rule index_native_placed)

theorem index_call_settles_as_native_witness:
  "txn_at demo_world 0 = Some demo_txn \<and> tx_pending demo_txn = [] \<and>
   w_proms (run_request 0 (snd (index_call (PromisedIndexedDbIndex (IndexHandle 0 ''people'' ''by_name''))
      (IGet (QKey (KStr ''bob''))) demo_world))) ! 0 = Fulfilled (PJs bob)"
proof -
  have h: "txn_at demo_world 0 = Some demo_txn" "tx_pending demo_txn = []"
    using demo_world_txn by simp_all
  have rhs: "(case index_native 0 ''people'' ''by_name'' (IGet (QKey (KStr ''bob''))) (snd (new_promise demo_world)) of
        Inl e \<Rightarrow> Rejected (RejException e)
      | Inr (r, w2) \<Rightarrow>
          (case exec_native 0 (rq_op (w_reqs w2 ! r)) w2 of
             Inl e \<Rightarrow> Rejected (RejEvent r)
           | Inr (v, w3) \<Rightarrow> Fulfilled v)) = Fulfilled (PJs bob)"
    by code_simp
  show ?thesis
    using h rhs index_call_settles_as_native [OF h, of "''people''" "''by_name''" "IGet (QKey (KStr ''bob''))"]
    by (simp add: demo_world_def empty_world_def)
qed


section \<open>Bounded key reads\<close>

lemma index_getAllKeys_promisify:
  "index_getAllKeys (PromisedIndexedDbIndex (IndexHandle t s i)) q c =
     promisify (idiom_success False) (native_read_counted RGetAllKeys t s (Some i) q c)"
  by (simp add: index_getAllKeys_def idiom_success_def)

lemma index_getAllKeys_result:
  assumes txn: "txn_at w t = Some tx" "tx_state tx = TxActive" "tx_pending tx = []"
    and st: "store_of w t s = Some os" "map_of (os_indexes os) i = Some d"
    and cnt: "convert_count c = Inr n"
  shows "w_proms (run_request t (snd (index_getAllKeys (PromisedIndexedDbIndex (IndexHandle t s i)) q c w)))
           ! length (w_proms w) =
         Fulfilled (PJs (JList (map (\<lambda>(ik, pk, v). key_value pk) (limit_count n (matching q (index_entries d os))))))"
proof -
  have act: "txn_active w t"
    using txn by (simp add: txn_active_def)
  have nat: "native_read_counted RGetAllKeys t s (Some i) q c (snd (new_promise w)) =
               Inr (place_request t (NRead (RGetAllKeys n) s (Some i) q) (snd (new_promise w)))"
    using index_read_counted_ok [of "snd (new_promise w)" t s os i d c n RGetAllKeys q] st act cnt by simp
  show ?thesis
    using promisify_settles_placed [where native = "native_read_counted RGetAllKeys t s (Some i) q c"
        and u = False, OF txn(1,3) nat] st
    by (simp add: index_getAllKeys_promisify exec_on_stores_def store_of_def)
qed

text \<open>
  C8. \<open>getAllKeys(query, count)\<close> on an index with \<open>0 < count < 2^32\<close>
  resolves with the primary keys of at most \<open>count\<close> index entries, taken in
  order from the index's entries (sorted by index key, then primary key), each with
  an index key the query matches.
\<close>

theorem index_getAllKeys_limit:
  assumes txn: "txn_at w t = Some tx" "tx_state tx = TxActive" "tx_pending tx = []"
    and st: "store_of w t s = Some os" "map_of (os_indexes os) i = Some d"
    and cnt: "0 < n" "n < 2 ^ 32"
  shows "\<exists>es. w_proms (run_request t (snd (index_getAllKeys (PromisedIndexedDbIndex (IndexHandle t s i)) q (Some n) w)))
               ! length (w_proms w) = Fulfilled (PJs (JList (map (\<lambda>(ik, pk, v). key_value pk) es))) \<and>
             length es \<le> nat n \<and> sorted (map (\<lambda>(ik, pk, v). (ik, pk)) es) \<and>
             list_all (\<lambda>(ik, pk, v). in_query q ik) es \<and> subseq es (index_entries d os)"
proof -
  have c: "convert_count (Some n) = Inr (nat n)"
    using cnt by (simp add: convert_count_def)
  let ?es = "limit_count (nat n) (matching q (index_entries d os))"
  have "length ?es \<le> nat n"
    using cnt by (simp add: limit_count_length)
  then show ?thesis
    using index_getAllKeys_result [OF txn st c, of q] sorted_limit_matching [OF sorted_index_entries]
      subseq_limit_matching limit_matching_in_query
    by blast
qed

theorem index_getAllKeys_limit_witness:
  "txn_at demo_world 0 = Some demo_txn \<and> tx_state demo_txn = TxActive \<and> tx_pending demo_txn = [] \<and>
   store_of demo_world 0 ''people'' = Some people_store \<and>
   map_of (os_indexes people_store) ''by_name'' = Some by_name \<and> (0::int) < 1 \<and> (1::int) < 2 ^ 32 \<and>
   (\<exists>es. w_proms (run_request 0 (snd (index_getAllKeys (PromisedIndexedDbIndex (IndexHandle 0 ''people'' ''by_name''))
              (QRange from_a) (Some 1) demo_world))) ! length (w_proms demo_world) =
            Fulfilled (PJs (JList (map (\<lambda>(ik, pk, v). key_value pk) es))) \<and>
          length es \<le> nat 1 \<and> sorted (map (\<lambda>(ik, pk, v). (ik, pk)) es) \<and>
          list_all (\<lambda>(ik, pk, v). in_query (QRange from_a) ik) es \<and>
          subseq es (index_entries by_name people_store))"
proof -
  have h: "txn_at demo_world 0 = Some demo_txn" "tx_state demo_txn = TxActive" "tx_pending demo_txn = []"
    "store_of demo_world 0 ''people'' = Some people_store"
    "map_of (os_indexes people_store) ''by_name'' = Some by_name" "(0::int) < 1" "(1::int) < 2 ^ 32"
    by code_simp+
  show ?thesis
    by (intro conjI h index_getAllKeys_limit [OF h])
qed

text \<open>
  C9. \<open>getAllKeys(query, 0)\<close> on an index resolves with the primary keys of
  every entry the query matches: a count of 0 is no limit.
\<close>

theorem index_getAllKeys_zero_count:
  assumes txn: "txn_at w t = Some tx" "tx_state tx = TxActive" "tx_pending tx = []"
    and st: "store_of w t s = Some os" "map_of (os_indexes os) i = Some d"
  shows "w_proms (run_request t (snd (index_getAllKeys (PromisedIndexedDbIndex (IndexHandle t s i)) q (Some 0) w)))
           ! length (w_proms w) =
         Fulfilled (PJs (JList (map (\<lambda>(ik, pk, v). key_value pk) (matching q (index_entries d os)))))"
  using index_getAllKeys_result [OF txn st, of "Some 0" 0 q]
  by (simp add: convert_count_def limit_count_def)


theorem index_getAllKeys_zero_count_witness:
  "txn_at demo_world 0 = Some demo_txn \<and> tx_state demo_txn = TxActive \<and> tx_pending demo_txn = [] \<and>
   store_of demo_world 0 ''people'' = Some people_store \<and>
   map_of (os_indexes people_store) ''by_name'' = Some by_name \<and>
   w_proms (run_request 0 (snd (index_getAllKeys (PromisedIndexedDbIndex (IndexHandle 0 ''people'' ''by_name''))
      QNone (Some 0) demo_world))) ! 0 = Fulfilled (PJs (JList [JNum 7, JNum 9]))"
proof -
  have h: "txn_at demo_world 0 = Some demo_txn" "tx_state demo_txn = TxActive" "tx_pending demo_txn = []"
    "store_of demo_world 0 ''people'' = Some people_store"
    "map_of (os_indexes people_store) ''by_name'' = Some by_name"
    by code_simp+
  have r: "JList (map (\<lambda>(ik, pk, v). key_value pk) (matching QNone (index_entries by_name people_store))) =
             JList [JNum 7, JNum 9]"
    by code_simp
  have z: "length (w_proms demo_world) = 0"
    by (simp add: demo_world_def empty_world_def)
  show ?thesis
    using h r z index_getAllKeys_zero_count [OF h, of QNone] by simp
qed

end
