(* ===== verification/Store_Wrapper.thy ===== *)
theory Store_Wrapper
  imports Index_Wrapper
begin

text \<open>
  \<open>PromisedIndexedDbObjectStore\<close> (\<open>src/src/index.ts\<close>, lines 114--297): the
  object-store wrapper. Its getters read the host store; \<open>transaction\<close> wraps the
  store's transaction anew; \<open>index(name)\<close> wraps the native index handle and, not
  being asynchronous, lets the native exception through; the other methods are the
  request-to-promise idiom, with \<open>clear\<close> and \<open>delete\<close> resolving with
  \<open>undefined\<close> instead of the request's result.
\<close>

section \<open>Getters\<close>

definition store_name :: "promised_store \<Rightarrow> string" where
  "store_name x = (case x of PromisedIndexedDbObjectStore (StoreHandle t s) \<Rightarrow> s)"

definition store_indexNames :: "promised_store \<Rightarrow> world \<Rightarrow> string list" where
  "store_indexNames x w =
     (case x of PromisedIndexedDbObjectStore (StoreHandle t s) \<Rightarrow>
        (case store_of w t s of None \<Rightarrow> [] | Some os \<Rightarrow> sort (map fst (os_indexes os))))"

definition store_keyPath :: "promised_store \<Rightarrow> world \<Rightarrow> string option" where
  "store_keyPath x w =
     (case x of PromisedIndexedDbObjectStore (StoreHandle t s) \<Rightarrow>
        (case store_of w t s of None \<Rightarrow> None | Some os \<Rightarrow> os_keyPath os))"

definition store_transaction :: "promised_store \<Rightarrow> promised_txn" where
  "store_transaction x =
     (case x of PromisedIndexedDbObjectStore (StoreHandle t s) \<Rightarrow> PromisedIndexedDbTransaction t)"

definition store_autoIncrement :: "promised_store \<Rightarrow> world \<Rightarrow> bool" where
  "store_autoIncrement x w =
     (case x of PromisedIndexedDbObjectStore (StoreHandle t s) \<Rightarrow>
        (case store_of w t s of None \<Rightarrow> False | Some os \<Rightarrow> os_generator os \<noteq> None))"

section \<open>Methods\<close>

definition store_add :: "promised_store \<Rightarrow> jsval \<Rightarrow> key option \<Rightarrow> world \<Rightarrow> addr \<times> world" where
  "store_add x v k =
     (case x of PromisedIndexedDbObjectStore (StoreHandle t s) \<Rightarrow>
        promisify ResolveResult (native_store True t s v k))"

definition store_clear :: "promised_store \<Rightarrow> world \<Rightarrow> addr \<times> world" where
  "store_clear x =
     (case x of PromisedIndexedDbObjectStore (StoreHandle t s) \<Rightarrow>
        promisify (\<lambda>p r. ResolveUndefined p) (native_clear t s))"

definition store_count :: "promised_store \<Rightarrow> query \<Rightarrow> world \<Rightarrow> addr \<times> world" where
  "store_count x q =
     (case x of PromisedIndexedDbObjectStore (StoreHandle t s) \<Rightarrow>
        promisify ResolveResult (native_read RCount t s None q))"

definition store_delete :: "promised_store \<Rightarrow> query \<Rightarrow> world \<Rightarrow> addr \<times> world" where
  "store_delete x q =
     (case x of PromisedIndexedDbObjectStore (StoreHandle t s) \<Rightarrow>
        promisify (\<lambda>p r. ResolveUndefined p) (native_delete t s q))"

definition store_get :: "promised_store \<Rightarrow> query \<Rightarrow> world \<Rightarrow> addr \<times> world" where
  "store_get x q =
     (case x of PromisedIndexedDbObjectStore (StoreHandle t s) \<Rightarrow>
        promisify ResolveResult (native_read RGet t s None q))"

definition store_getAll :: "promised_store \<Rightarrow> query \<Rightarrow> int option \<Rightarrow> world \<Rightarrow> addr \<times> world" where
  "store_getAll x q c =
     (case x of PromisedIndexedDbObjectStore (StoreHandle t s) \<Rightarrow>
        promisify ResolveResult (native_read_counted RGetAll t s None q c))"

definition store_getAllKeys :: "promised_store \<Rightarrow> query \<Rightarrow> int option \<Rightarrow> world \<Rightarrow> addr \<times> world" where
  "store_getAllKeys x q c =
     (case x of PromisedIndexedDbObjectStore (StoreHandle t s) \<Rightarrow>
        promisify ResolveResult (native_read_counted RGetAllKeys t s None q c))"

definition store_getKey :: "promised_store \<Rightarrow> query \<Rightarrow> world \<Rightarrow> addr \<times> world" where
  "store_getKey x q =
     (case x of PromisedIndexedDbObjectStore (StoreHandle t s) \<Rightarrow>
        promisify ResolveResult (native_read RGetKey t s None q))"

definition store_index :: "promised_store \<Rightarrow> string \<Rightarrow> world \<Rightarrow> dom_error + promised_index" where
  "store_index x i w =
     (case x of PromisedIndexedDbObjectStore (StoreHandle t s) \<Rightarrow>
        map_sum id PromisedIndexedDbIndex (native_index t s i w))"

definition store_put :: "promised_store \<Rightarrow> jsval \<Rightarrow> key option \<Rightarrow> world \<Rightarrow> addr \<times> world" where
  "store_put x v k =
     (case x of PromisedIndexedDbObjectStore (StoreHandle t s) \<Rightarrow>
        promisify ResolveResult (native_store False t s v k))"

section \<open>The asynchronous methods as one interface\<close>

text \<open>
  The nine promise-returning methods as a datatype of calls, with the native call
  and the success listener each one uses. \<open>store_call\<close> dispatches to the methods
  above; the step relation of the system and the theorems over all methods use it.
\<close>

datatype store_op =
    SAdd jsval "key option"
  | SClear
  | SCount query
  | SDelete query
  | SGet query
  | SGetAll query "int option"
  | SGetAllKeys query "int option"
  | SGetKey query
  | SPut jsval "key option"

fun store_call :: "promised_store \<Rightarrow> store_op \<Rightarrow> world \<Rightarrow> addr \<times> world" where
  "store_call x (SAdd v k) = store_add x v k"
| "store_call x SClear = store_clear x"
| "store_call x (SCount q) = store_count x q"
| "store_call x (SDelete q) = store_delete x q"
| "store_call x (SGet q) = store_get x q"
| "store_call x (SGetAll q c) = store_getAll x q c"
| "store_call x (SGetAllKeys q c) = store_getAllKeys x q c"
| "store_call x (SGetKey q) = store_getKey x q"
| "store_call x (SPut v k) = store_put x v k"

fun store_native :: "addr \<Rightarrow> string \<Rightarrow> store_op \<Rightarrow> world \<Rightarrow> dom_error + (addr \<times> world)" where
  "store_native t s (SAdd v k) = native_store True t s v k"
| "store_native t s SClear = native_clear t s"
| "store_native t s (SCount q) = native_read RCount t s None q"
| "store_native t s (SDelete q) = native_delete t s q"
| "store_native t s (SGet q) = native_read RGet t s None q"
| "store_native t s (SGetAll q c) = native_read_counted RGetAll t s None q c"
| "store_native t s (SGetAllKeys q c) = native_read_counted RGetAllKeys t s None q c"
| "store_native t s (SGetKey q) = native_read RGetKey t s None q"
| "store_native t s (SPut v k) = native_store False t s v k"

fun resolves_undefined :: "store_op \<Rightarrow> bool" where
  "resolves_undefined SClear = True"
| "resolves_undefined (SDelete q) = True"
| "resolves_undefined _ = False"

text \<open>The \<open>count\<close> argument a call passes to the native method, if any.\<close>

fun store_count_arg :: "store_op \<Rightarrow> int option" where
  "store_count_arg (SGetAll q c) = c"
| "store_count_arg (SGetAllKeys q c) = c"
| "store_count_arg _ = None"

section \<open>Every method settles its promise as the native request settles\<close>

lemma store_call_promisify:
  "store_call (PromisedIndexedDbObjectStore (StoreHandle t s)) c =
     promisify (idiom_success (resolves_undefined c)) (store_native t s c)"
  by (cases c) (simp_all add: idiom_success_def store_add_def store_clear_def store_count_def
      store_delete_def store_get_def store_getAll_def store_getAllKeys_def store_getKey_def store_put_def)

lemma store_native_placed:
  "store_native t s c w = Inr (r, w') \<Longrightarrow> \<exists>op. (r, w') = place_request t op w"
  by (cases c) (auto dest: native_read_placed native_read_counted_placed native_store_placed
      native_delete_placed native_clear_placed)

text \<open>
  C1. For every asynchronous method of the object-store wrapper, called on a
  transaction with no other pending request: if the native method throws, the
  returned promise is already rejected with that exception; otherwise, once the host
  has run the request, the promise is fulfilled with the request's result
  (\<open>undefined\<close> for \<open>clear\<close> and \<open>delete\<close>) or rejected with the request's error
  event, exactly as the native request settled.
\<close>

theorem store_call_settles_as_native:
  assumes "txn_at w t = Some tx" and "tx_pending tx = []"
  shows "w_proms (run_request t (snd (store_call (PromisedIndexedDbObjectStore (StoreHandle t s)) c w)))
           ! length (w_proms w) =
     (case store_native t s c (snd (new_promise w)) of
        Inl e \<Rightarrow> Rejected (RejException e)
      | Inr (r, w2) \<Rightarrow>
          (case exec_native t (rq_op (w_reqs w2 ! r)) w2 of
             Inl e \<Rightarrow> Rejected (RejEvent r)
           | Inr (v, w3) \<Rightarrow> Fulfilled (if resolves_undefined c then PJs JUndefined else v)))"
  unfolding store_call_promisify
  by (rule promisify_settles_as_native [OF assms]) (rule store_native_placed)

theorem store_call_settles_as_native_witness:
  "txn_at demo_world 0 = Some demo_txn \<and> tx_pending demo_txn = [] \<and>
   w_proms (run_request 0 (snd (store_call (PromisedIndexedDbObjectStore (StoreHandle 0 ''items''))
      (SGet (QKey (KNum 1))) demo_world))) ! 0 = Fulfilled (PJs pen)"
proof -
  have h: "txn_at demo_world 0 = Some demo_txn" "tx_pending demo_txn = []"
    using demo_world_txn by simp_all
  have rhs: "(case store_native 0 ''items'' (SGet (QKey (KNum 1))) (snd (new_promise demo_world)) of
        Inl e \<Rightarrow> Rejected (RejException e)
      | Inr (r, w2) \<Rightarrow>
          (case exec_native 0 (rq_op (w_reqs w2 ! r)) w2 of
             Inl e \<Rightarrow> Rejected (RejEvent r)
           | Inr (v, w3) \<Rightarrow> Fulfilled (if resolves_undefined (SGet (QKey (KNum 1))) then PJs JUndefined else v)))
      = Fulfilled (PJs pen)"
    by code_simp
  show ?thesis
    using h rhs store_call_settles_as_native [OF h, of "''items''" "SGet (QKey (KNum 1))"]
    by (simp add: demo_world_def empty_world_def)
qed

section \<open>Read after write\<close>

lemma store_put_promisify:
  "store_put (PromisedIndexedDbObjectStore (StoreHandle t s)) v k =
     promisify (idiom_success False) (native_store False t s v k)"
  by (simp add: store_put_def idiom_success_def)

lemma store_get_promisify:
  "store_get (PromisedIndexedDbObjectStore (StoreHandle t s)) q =
     promisify (idiom_success False) (native_read RGet t s None q)"
  by (simp add: store_get_def idiom_success_def)

text \<open>
  The state after \<open>put(v, k)\<close> on a store with out-of-line keys ran: the
  transaction is unchanged and the store holds \<open>v\<close> at \<open>k\<close>.
\<close>

lemma store_put_run_state:
  assumes txn: "txn_at w t = Some tx" "tx_state tx = TxActive" "tx_mode tx \<noteq> ReadOnly"
      "tx_pending tx = []"
    and st: "store_of w t s = Some os" "os_keyPath os = None" "unique_ok os k v"
  defines "w1 \<equiv> run_request t (snd (store_put (PromisedIndexedDbObjectStore (StoreHandle t s)) v (Some k) w))"
  shows "txn_at w1 t = Some tx"
    and "store_of w1 t s = Some ((possibly_update_generator k os)\<lparr>os_records := ins_record k v (os_records os)\<rparr>)"
proof -
  let ?os1 = "(possibly_update_generator k os)\<lparr>os_records := ins_record k v (os_records os)\<rparr>"
  have act: "txn_active w t" "txn_writable w t"
    using txn by (simp_all add: txn_active_def txn_writable_def)
  obtain r w2 where pl: "place_request t (NStore False s v (Some k)) (snd (new_promise w)) = (r, w2)"
    by fastforce
  have nat: "native_store False t s v (Some k) (snd (new_promise w)) = Inr (r, w2)"
    using native_store_ok [of "snd (new_promise w)" t s os] st act pl by simp
  have ex: "exec_on_stores (NStore False s v (Some k)) (txn_stores w t) =
              Inr (PJs (key_value k), AList.update s ?os1 (txn_stores w t))"
    using st by (simp add: exec_on_stores_def store_of_def store_record_key)
  note run = promisify_run_state [where native = "native_store False t s v (Some k)" and u = False,
      OF txn(1,4) nat pl [symmetric] ex]
  show "txn_at w1 t = Some tx"
    using run(1) by (simp add: w1_def store_put_promisify)
  show "store_of w1 t s = Some ?os1"
    using run(2) by (simp add: w1_def store_put_promisify store_of_def)
qed

text \<open>
  C2. Read after write within one transaction: \<open>put(v, k)\<close> on a store with
  out-of-line keys, then \<open>get(k)\<close>, each awaited, resolves the \<open>get\<close> with
  \<open>v\<close>.
\<close>

theorem store_put_then_get:
  assumes txn: "txn_at w t = Some tx" "tx_state tx = TxActive" "tx_mode tx \<noteq> ReadOnly"
      "tx_pending tx = []"
    and st: "store_of w t s = Some os" "store_wf os" "os_keyPath os = None" "unique_ok os k v"
  defines "x \<equiv> PromisedIndexedDbObjectStore (StoreHandle t s)"
  defines "w1 \<equiv> run_request t (snd (store_put x v (Some k) w))"
  shows "w_proms (run_request t (snd (store_get x (QKey k) w1))) ! length (w_proms w1) = Fulfilled (PJs v)"
proof -
  let ?os1 = "(possibly_update_generator k os)\<lparr>os_records := ins_record k v (os_records os)\<rparr>"
  have s1: "txn_at w1 t = Some tx" "store_of w1 t s = Some ?os1"
    using store_put_run_state [OF txn st(1,3,4)] by (simp_all add: w1_def x_def)
  have wf1: "store_wf ?os1"
    using st(2) by (simp add: store_wf_def records_wf_ins_record)
  have act1: "txn_active w1 t"
    using s1 txn(2) by (simp add: txn_active_def)
  have nat: "native_read RGet t s None (QKey k) (snd (new_promise w1)) =
               Inr (place_request t (NRead RGet s None (QKey k)) (snd (new_promise w1)))"
    using native_read_ok [of "snd (new_promise w1)" t s ?os1] s1 act1 by simp
  have rd: "exec_read RGet (QKey k) (store_entries ?os1) = v"
    using exec_read_get_key [OF wf1, of k] by simp
  have "exec_on_stores (NRead RGet s None (QKey k)) (txn_stores w1 t) =
          Inr (PJs v, txn_stores w1 t)"
    using s1(2) rd by (simp add: exec_on_stores_def store_of_def del: exec_read.simps)
  then show ?thesis
    using promisify_settles_placed [where native = "native_read RGet t s None (QKey k)" and u = False,
        OF s1(1) txn(4) nat]
    by (simp add: x_def store_get_promisify)
qed

theorem store_put_then_get_witness:
  "txn_at demo_world 0 = Some demo_txn \<and> tx_state demo_txn = TxActive \<and>
   tx_mode demo_txn \<noteq> ReadOnly \<and> tx_pending demo_txn = [] \<and>
   store_of demo_world 0 ''items'' = Some items_store \<and> store_wf items_store \<and>
   os_keyPath items_store = None \<and> unique_ok items_store (KNum 5) (JStr ''cup'') \<and>
   w_proms (run_request 0 (snd (store_get (PromisedIndexedDbObjectStore (StoreHandle 0 ''items'')) (QKey (KNum 5))
      (run_request 0 (snd (store_put (PromisedIndexedDbObjectStore (StoreHandle 0 ''items'')) (JStr ''cup'') (Some (KNum 5)) demo_world))))))
     ! length (w_proms (run_request 0 (snd (store_put (PromisedIndexedDbObjectStore (StoreHandle 0 ''items'')) (JStr ''cup'') (Some (KNum 5)) demo_world))))
   = Fulfilled (PJs (JStr ''cup''))"
proof -
  have h: "txn_at demo_world 0 = Some demo_txn" "tx_state demo_txn = TxActive"
    "tx_mode demo_txn \<noteq> ReadOnly" "tx_pending demo_txn = []"
    "store_of demo_world 0 ''items'' = Some items_store" "store_wf items_store"
    "os_keyPath items_store = None" "unique_ok items_store (KNum 5) (JStr ''cup'')"
    by code_simp+
  show ?thesis
    using h store_put_then_get [OF h] by simp
qed

section \<open>Adding under an existing key\<close>

lemma store_add_promisify:
  "store_add (PromisedIndexedDbObjectStore (StoreHandle t s)) v k =
     promisify (idiom_success False) (native_store True t s v k)"
  by (simp add: store_add_def idiom_success_def)

text \<open>
  C3. \<open>add(v, k)\<close> with a key the store already holds is rejected with the
  request's error event; and since the wrapper's error listener does not cancel the
  event, the host aborts the whole transaction unless one of the caller's
  transaction listeners cancels it.
\<close>

theorem store_add_existing_key:
  fixes v :: jsval
  assumes txn: "txn_at w t = Some tx" "tx_state tx = TxActive" "tx_mode tx \<noteq> ReadOnly"
      "tx_pending tx = []"
    and nocancel: "\<not> list_ex (\<lambda>(e', cb). e' = TxError \<and> cb_cancels cb) (tx_listeners tx)"
    and st: "store_of w t s = Some os" "os_keyPath os = None" "map_of (os_records os) k \<noteq> None"
  shows "let w1 = run_request t (snd (store_add (PromisedIndexedDbObjectStore (StoreHandle t s)) v (Some k) w))
         in w_proms w1 ! length (w_proms w) = Rejected (RejEvent (length (w_reqs w))) \<and>
            map_option tx_state (txn_at w1 t) = Some TxAborted"
proof -
  have act: "txn_active w t" "txn_writable w t"
    using txn by (simp_all add: txn_active_def txn_writable_def)
  have nat: "native_store True t s v (Some k) (snd (new_promise w)) =
               Inr (place_request t (NStore True s v (Some k)) (snd (new_promise w)))"
    using native_store_ok [of "snd (new_promise w)" t s os] st act by simp
  have ex: "exec_on_stores (NStore True s v (Some k)) (txn_stores w t) = Inl ConstraintError"
    using st by (simp add: exec_on_stores_def store_of_def store_record_key)
  note run = promisify_run_fails [where native = "native_store True t s v (Some k)" and u = False,
      OF txn(1,4) nocancel nat ex]
  show ?thesis
    using run by (simp add: store_add_promisify Let_def)
qed

theorem store_add_existing_key_witness:
  "txn_at demo_world 0 = Some demo_txn \<and> tx_state demo_txn = TxActive \<and>
   tx_mode demo_txn \<noteq> ReadOnly \<and> tx_pending demo_txn = [] \<and>
   \<not> list_ex (\<lambda>(e', cb). e' = TxError \<and> cb_cancels cb) (tx_listeners demo_txn) \<and>
   store_of demo_world 0 ''items'' = Some items_store \<and> os_keyPath items_store = None \<and>
   map_of (os_records items_store) (KNum 1) \<noteq> None \<and>
   w_proms (run_request 0 (snd (store_add (PromisedIndexedDbObjectStore (StoreHandle 0 ''items''))
      (JStr ''cup'') (Some (KNum 1)) demo_world))) ! 0 = Rejected (RejEvent 0) \<and>
   map_option tx_state (txn_at (run_request 0 (snd (store_add (PromisedIndexedDbObjectStore (StoreHandle 0 ''items''))
      (JStr ''cup'') (Some (KNum 1)) demo_world))) 0) = Some TxAborted"
proof -
  have h: "txn_at demo_world 0 = Some demo_txn" "tx_state demo_txn = TxActive"
    "tx_mode demo_txn \<noteq> ReadOnly" "tx_pending demo_txn = []"
    "\<not> list_ex (\<lambda>(e', cb). e' = TxError \<and> cb_cancels cb) (tx_listeners demo_txn)"
    "store_of demo_world 0 ''items'' = Some items_store" "os_keyPath items_store = None"
    "map_of (os_records items_store) (KNum 1) \<noteq> None"
    by code_simp+
  have z: "length (w_proms demo_world) = 0" "length (w_reqs demo_world) = 0"
    by (simp_all add: demo_world_def empty_world_def)
  show ?thesis
    using h store_add_existing_key [OF h, of "JStr ''cup''"] z by (simp add: Let_def)
qed


section \<open>Adding under a fresh key, deleting a missing one, clearing\<close>

lemma store_delete_promisify:
  "store_delete (PromisedIndexedDbObjectStore (StoreHandle t s)) q =
     promisify (idiom_success True) (native_delete t s q)"
  by (simp add: store_delete_def idiom_success_def)

lemma store_clear_promisify:
  "store_clear (PromisedIndexedDbObjectStore (StoreHandle t s)) =
     promisify (idiom_success True) (native_clear t s)"
  by (simp add: store_clear_def idiom_success_def)

lemma store_getAll_promisify:
  "store_getAll (PromisedIndexedDbObjectStore (StoreHandle t s)) q c =
     promisify (idiom_success False) (native_read_counted RGetAll t s None q c)"
  by (simp add: store_getAll_def idiom_success_def)

text \<open>
  C4. \<open>add(v, k)\<close> with a key the store does not hold, on a store with out-of-line
  keys and no unique index the value would violate, resolves with \<open>k\<close>, and the store
  then holds \<open>v\<close> at \<open>k\<close>.
\<close>

theorem store_add_fresh_key:
  fixes v :: jsval
  assumes txn: "txn_at w t = Some tx" "tx_state tx = TxActive" "tx_mode tx \<noteq> ReadOnly"
      "tx_pending tx = []"
    and st: "store_of w t s = Some os" "os_keyPath os = None" "map_of (os_records os) k = None"
      "unique_ok os k v"
  shows "let w1 = run_request t (snd (store_add (PromisedIndexedDbObjectStore (StoreHandle t s)) v (Some k) w))
         in w_proms w1 ! length (w_proms w) = Fulfilled (PJs (key_value k)) \<and>
            (\<exists>os'. store_of w1 t s = Some os' \<and> map_of (os_records os') k = Some v)"
proof -
  let ?os1 = "(possibly_update_generator k os)\<lparr>os_records := ins_record k v (os_records os)\<rparr>"
  have act: "txn_active w t" "txn_writable w t"
    using txn by (simp_all add: txn_active_def txn_writable_def)
  have nat: "native_store True t s v (Some k) (snd (new_promise w)) =
               Inr (place_request t (NStore True s v (Some k)) (snd (new_promise w)))"
    using native_store_ok [of "snd (new_promise w)" t s os] st act by simp
  have ex: "exec_on_stores (NStore True s v (Some k)) (txn_stores w t) =
              Inr (PJs (key_value k), AList.update s ?os1 (txn_stores w t))"
    using st by (simp add: exec_on_stores_def store_of_def store_record_key)
  note run = promisify_run_ok [where native = "native_store True t s v (Some k)" and u = False,
      OF txn(1,4) nat ex]
  show ?thesis
    using run(1) run(3) [of s] by (simp add: store_add_promisify Let_def)
qed


theorem store_add_fresh_key_witness:
  "txn_at demo_world 0 = Some demo_txn \<and> tx_state demo_txn = TxActive \<and>
   tx_mode demo_txn \<noteq> ReadOnly \<and> tx_pending demo_txn = [] \<and>
   store_of demo_world 0 ''items'' = Some items_store \<and> os_keyPath items_store = None \<and>
   map_of (os_records items_store) (KNum 5) = None \<and> unique_ok items_store (KNum 5) (JStr ''cup'') \<and>
   (let w1 = run_request 0 (snd (store_add (PromisedIndexedDbObjectStore (StoreHandle 0 ''items''))
                (JStr ''cup'') (Some (KNum 5)) demo_world))
    in w_proms w1 ! length (w_proms demo_world) = Fulfilled (PJs (key_value (KNum 5))) \<and>
       (\<exists>os'. store_of w1 0 ''items'' = Some os' \<and> map_of (os_records os') (KNum 5) = Some (JStr ''cup'')))"
proof -
  have h: "txn_at demo_world 0 = Some demo_txn" "tx_state demo_txn = TxActive"
    "tx_mode demo_txn \<noteq> ReadOnly" "tx_pending demo_txn = []"
    "store_of demo_world 0 ''items'' = Some items_store" "os_keyPath items_store = None"
    "map_of (os_records items_store) (KNum 5) = None" "unique_ok items_store (KNum 5) (JStr ''cup'')"
    by code_simp+
  show ?thesis
    by (intro conjI h store_add_fresh_key [OF h])
qed

text \<open>
  C5. \<open>delete(k)\<close> for a key the store does not hold resolves with
  \<open>undefined\<close> and leaves the store exactly as it was.
\<close>

theorem store_delete_missing_key:
  assumes txn: "txn_at w t = Some tx" "tx_state tx = TxActive" "tx_mode tx \<noteq> ReadOnly"
      "tx_pending tx = []"
    and st: "store_of w t s = Some os" "map_of (os_records os) k = None"
  shows "let w1 = run_request t (snd (store_delete (PromisedIndexedDbObjectStore (StoreHandle t s)) (QKey k) w))
         in w_proms w1 ! length (w_proms w) = Fulfilled (PJs JUndefined) \<and> store_of w1 t s = Some os"
proof -
  have act: "txn_active w t" "txn_writable w t"
    using txn by (simp_all add: txn_active_def txn_writable_def)
  have nat: "native_delete t s (QKey k) (snd (new_promise w)) =
               Inr (place_request t (NDelete s (QKey k)) (snd (new_promise w)))"
    using native_delete_ok [of "snd (new_promise w)" t s os] st act by simp
  have ex: "exec_on_stores (NDelete s (QKey k)) (txn_stores w t) =
              Inr (PJs JUndefined, AList.update s os (txn_stores w t))"
    using st by (simp add: exec_on_stores_def store_of_def delete_records_missing)
  note run = promisify_run_ok [where native = "native_delete t s (QKey k)" and u = True,
      OF txn(1,4) nat ex]
  show ?thesis
    using run(1) run(3) [of s] by (simp add: store_delete_promisify Let_def)
qed

theorem store_delete_missing_key_witness:
  "txn_at demo_world 0 = Some demo_txn \<and> tx_state demo_txn = TxActive \<and>
   tx_mode demo_txn \<noteq> ReadOnly \<and> tx_pending demo_txn = [] \<and>
   store_of demo_world 0 ''items'' = Some items_store \<and> map_of (os_records items_store) (KNum 7) = None \<and>
   (let w1 = run_request 0 (snd (store_delete (PromisedIndexedDbObjectStore (StoreHandle 0 ''items''))
                (QKey (KNum 7)) demo_world))
    in w_proms w1 ! length (w_proms demo_world) = Fulfilled (PJs JUndefined) \<and>
       store_of w1 0 ''items'' = Some items_store)"
proof -
  have h: "txn_at demo_world 0 = Some demo_txn" "tx_state demo_txn = TxActive"
    "tx_mode demo_txn \<noteq> ReadOnly" "tx_pending demo_txn = []"
    "store_of demo_world 0 ''items'' = Some items_store" "map_of (os_records items_store) (KNum 7) = None"
    by code_simp+
  show ?thesis
    by (intro conjI h store_delete_missing_key [OF h])
qed

text \<open>
  C6. \<open>clear()\<close> followed by \<open>getAll()\<close> with no query and no count, each
  awaited, resolves the \<open>getAll\<close> with the empty array.
\<close>

theorem store_clear_then_getAll:
  assumes txn: "txn_at w t = Some tx" "tx_state tx = TxActive" "tx_mode tx \<noteq> ReadOnly"
      "tx_pending tx = []"
    and st: "store_of w t s = Some os"
  shows "let x = PromisedIndexedDbObjectStore (StoreHandle t s);
             w1 = run_request t (snd (store_clear x w));
             w2 = run_request t (snd (store_getAll x QNone None w1))
         in w_proms w2 ! length (w_proms w1) = Fulfilled (PJs (JList []))"
proof -
  let ?x = "PromisedIndexedDbObjectStore (StoreHandle t s)"
  let ?w1 = "run_request t (snd (store_clear ?x w))"
  have act: "txn_active w t" "txn_writable w t"
    using txn by (simp_all add: txn_active_def txn_writable_def)
  have nat: "native_clear t s (snd (new_promise w)) =
               Inr (place_request t (NClear s) (snd (new_promise w)))"
    using native_clear_ok [of "snd (new_promise w)" t s os] st act by simp
  have ex: "exec_on_stores (NClear s) (txn_stores w t) =
              Inr (PJs JUndefined, AList.update s (clear_records os) (txn_stores w t))"
    using st by (simp add: exec_on_stores_def store_of_def)
  note run = promisify_run_ok [where native = "native_clear t s" and u = True, OF txn(1,4) nat ex]
  have tx1: "txn_at ?w1 t = Some tx" and st1: "store_of ?w1 t s = Some (clear_records os)"
    using run(2) run(3) [of s] by (simp_all add: store_clear_promisify)
  have act1: "txn_active ?w1 t"
    using tx1 txn(2) by (simp add: txn_active_def)
  have nat1: "native_read_counted RGetAll t s None QNone None (snd (new_promise ?w1)) =
                Inr (place_request t (NRead (RGetAll 0) s None QNone) (snd (new_promise ?w1)))"
    using native_read_counted_ok [of "snd (new_promise ?w1)" t s "clear_records os" None 0 RGetAll]
      st1 act1 by (simp add: convert_count_def)
  have ex1: "exec_on_stores (NRead (RGetAll 0) s None QNone) (txn_stores ?w1 t) =
               Inr (PJs (JList []), txn_stores ?w1 t)"
    using st1 by (simp add: exec_on_stores_def store_of_def clear_records_def store_entries_def
        matching_def limit_count_def)
  show ?thesis
    using promisify_run_ok(1) [where native = "native_read_counted RGetAll t s None QNone None" and u = False,
        OF tx1 txn(4) nat1 ex1] by (simp add: store_getAll_promisify Let_def)
qed

theorem store_clear_then_getAll_witness:
  "txn_at demo_world 0 = Some demo_txn \<and> tx_state demo_txn = TxActive \<and>
   tx_mode demo_txn \<noteq> ReadOnly \<and> tx_pending demo_txn = [] \<and>
   store_of demo_world 0 ''items'' = Some items_store \<and>
   (let x = PromisedIndexedDbObjectStore (StoreHandle 0 ''items'');
        w1 = run_request 0 (snd (store_clear x demo_world));
        w2 = run_request 0 (snd (store_getAll x QNone None w1))
    in w_proms w2 ! length (w_proms w1) = Fulfilled (PJs (JList [])))"
proof -
  have h: "txn_at demo_world 0 = Some demo_txn" "tx_state demo_txn = TxActive"
    "tx_mode demo_txn \<noteq> ReadOnly" "tx_pending demo_txn = []"
    "store_of demo_world 0 ''items'' = Some items_store"
    by code_simp+
  show ?thesis
    by (intro conjI h store_clear_then_getAll [OF h])
qed

section \<open>Reading a missing key\<close>

lemma store_get_undefined_run:
  assumes txn: "txn_at w t = Some tx" "tx_state tx = TxActive" "tx_pending tx = []"
    and st: "store_of w t s = Some os" "store_wf os" "map_of (os_records os) k = None"
  shows "w_proms (run_request t (snd (store_get (PromisedIndexedDbObjectStore (StoreHandle t s)) (QKey k) w)))
           ! length (w_proms w) = Fulfilled (PJs JUndefined)"
proof -
  have act: "txn_active w t"
    using txn by (simp add: txn_active_def)
  have nat: "native_read RGet t s None (QKey k) (snd (new_promise w)) =
               Inr (place_request t (NRead RGet s None (QKey k)) (snd (new_promise w)))"
    using native_read_ok [of "snd (new_promise w)" t s os "QKey k" RGet] st act by simp
  have rd: "exec_read RGet (QKey k) (store_entries os) = JUndefined"
    using exec_read_get_key [OF st(2), of k] st(3) by simp
  show ?thesis
    using promisify_settles_placed [where native = "native_read RGet t s None (QKey k)" and u = False,
        OF txn(1,3) nat] st(1) rd
    by (simp add: store_get_promisify exec_on_stores_def store_of_def del: exec_read.simps)
qed

section \<open>Inactive transactions, overwriting, generated keys\<close>

lemma store_native_inactive:
  assumes "store_of w t s \<noteq> None" "\<not> txn_active w t" "\<not> isl (convert_count (store_count_arg c))"
  shows "store_native t s c w = Inl TransactionInactiveError"
  using assms
  by (cases c) (auto simp: native_read_def native_store_def native_delete_def native_clear_def
      native_read_counted_def split: sum.splits)

text \<open>
  C21. Every asynchronous method called on a transaction that is no longer active
  returns a promise that is already rejected with the native
  \<open>TransactionInactiveError\<close>, and places no request: the exception thrown by the
  native method inside the executor becomes the rejection instead of being thrown
  to the caller.
\<close>

theorem store_call_inactive_rejects:
  assumes "txn_at w t = Some tx" "tx_state tx \<noteq> TxActive" "store_of w t s \<noteq> None"
    "\<not> isl (convert_count (store_count_arg c))"
  shows "let (p, w') = store_call (PromisedIndexedDbObjectStore (StoreHandle t s)) c w in
           w_proms w' ! p = Rejected (RejException TransactionInactiveError) \<and>
           w_reqs w' = w_reqs w \<and> w_txns w' = w_txns w"
proof -
  have "store_native t s c (snd (new_promise w)) = Inl TransactionInactiveError"
    using assms by (intro store_native_inactive) (simp_all add: txn_active_def)
  then show ?thesis
    by (simp add: store_call_promisify promisify_Inl reject_promise_def settle_def new_promise_eq)
qed

theorem store_call_inactive_rejects_witness:
  "txn_at (demo_world\<lparr>w_txns := [demo_txn\<lparr>tx_state := TxCommitted\<rparr>]\<rparr>) 0 = Some (demo_txn\<lparr>tx_state := TxCommitted\<rparr>) \<and>
   tx_state (demo_txn\<lparr>tx_state := TxCommitted\<rparr>) \<noteq> TxActive \<and>
   store_of (demo_world\<lparr>w_txns := [demo_txn\<lparr>tx_state := TxCommitted\<rparr>]\<rparr>) 0 ''items'' \<noteq> None \<and>
   \<not> isl (convert_count (store_count_arg (SGet (QKey (KNum 1))))) \<and>
   (let (p, w') = store_call (PromisedIndexedDbObjectStore (StoreHandle 0 ''items'')) (SGet (QKey (KNum 1)))
                    (demo_world\<lparr>w_txns := [demo_txn\<lparr>tx_state := TxCommitted\<rparr>]\<rparr>) in
    w_proms w' ! p = Rejected (RejException TransactionInactiveError) \<and>
    w_reqs w' = w_reqs (demo_world\<lparr>w_txns := [demo_txn\<lparr>tx_state := TxCommitted\<rparr>]\<rparr>) \<and>
    w_txns w' = w_txns (demo_world\<lparr>w_txns := [demo_txn\<lparr>tx_state := TxCommitted\<rparr>]\<rparr>))"
proof -
  have h: "txn_at (demo_world\<lparr>w_txns := [demo_txn\<lparr>tx_state := TxCommitted\<rparr>]\<rparr>) 0 = Some (demo_txn\<lparr>tx_state := TxCommitted\<rparr>)"
    "tx_state (demo_txn\<lparr>tx_state := TxCommitted\<rparr>) \<noteq> TxActive"
    "store_of (demo_world\<lparr>w_txns := [demo_txn\<lparr>tx_state := TxCommitted\<rparr>]\<rparr>) 0 ''items'' \<noteq> None"
    "\<not> isl (convert_count (store_count_arg (SGet (QKey (KNum 1)))))"
    by code_simp+
  show ?thesis
    by (intro conjI h store_call_inactive_rejects [OF h])
qed

text \<open>
  C22. \<open>put(v, k)\<close> on a key the store already holds resolves with \<open>k\<close> and
  overwrites: the store then holds \<open>v\<close> at \<open>k\<close> and every other key as before.
\<close>

theorem store_put_existing_key:
  fixes v :: jsval
  assumes txn: "txn_at w t = Some tx" "tx_state tx = TxActive" "tx_mode tx \<noteq> ReadOnly"
      "tx_pending tx = []"
    and st: "store_of w t s = Some os" "os_keyPath os = None" "map_of (os_records os) k = Some v0"
      "unique_ok os k v"
  shows "let w1 = run_request t (snd (store_put (PromisedIndexedDbObjectStore (StoreHandle t s)) v (Some k) w))
         in w_proms w1 ! length (w_proms w) = Fulfilled (PJs (key_value k)) \<and>
            (\<exists>os'. store_of w1 t s = Some os' \<and> map_of (os_records os') k = Some v \<and>
                   (\<forall>k'. k' \<noteq> k \<longrightarrow> map_of (os_records os') k' = map_of (os_records os) k'))"
proof -
  let ?os1 = "(possibly_update_generator k os)\<lparr>os_records := ins_record k v (os_records os)\<rparr>"
  have act: "txn_active w t" "txn_writable w t"
    using txn by (simp_all add: txn_active_def txn_writable_def)
  have nat: "native_store False t s v (Some k) (snd (new_promise w)) =
               Inr (place_request t (NStore False s v (Some k)) (snd (new_promise w)))"
    using native_store_ok [of "snd (new_promise w)" t s os] st act by simp
  have ex: "exec_on_stores (NStore False s v (Some k)) (txn_stores w t) =
              Inr (PJs (key_value k), AList.update s ?os1 (txn_stores w t))"
    using st by (simp add: exec_on_stores_def store_of_def store_record_key)
  note run = promisify_run_ok [where native = "native_store False t s v (Some k)" and u = False,
      OF txn(1,4) nat ex]
  show ?thesis
    using run(1) run(3) [of s] by (simp add: store_put_promisify Let_def)
qed


theorem store_put_existing_key_witness:
  "txn_at demo_world 0 = Some demo_txn \<and> tx_state demo_txn = TxActive \<and>
   tx_mode demo_txn \<noteq> ReadOnly \<and> tx_pending demo_txn = [] \<and>
   store_of demo_world 0 ''items'' = Some items_store \<and> os_keyPath items_store = None \<and>
   map_of (os_records items_store) (KNum 1) = Some pen \<and> unique_ok items_store (KNum 1) cup \<and>
   (let w1 = run_request 0 (snd (store_put (PromisedIndexedDbObjectStore (StoreHandle 0 ''items'')) cup (Some (KNum 1)) demo_world))
    in w_proms w1 ! length (w_proms demo_world) = Fulfilled (PJs (key_value (KNum 1))) \<and>
       (\<exists>os'. store_of w1 0 ''items'' = Some os' \<and> map_of (os_records os') (KNum 1) = Some cup \<and>
              (\<forall>k'. k' \<noteq> KNum 1 \<longrightarrow> map_of (os_records os') k' = map_of (os_records items_store) k')))"
proof -
  have h: "txn_at demo_world 0 = Some demo_txn" "tx_state demo_txn = TxActive"
    "tx_mode demo_txn \<noteq> ReadOnly" "tx_pending demo_txn = []"
    "store_of demo_world 0 ''items'' = Some items_store" "os_keyPath items_store = None"
    "map_of (os_records items_store) (KNum 1) = Some pen" "unique_ok items_store (KNum 1) cup"
    by code_simp+
  show ?thesis
    by (intro conjI h store_put_existing_key [OF h])
qed

text \<open>
  C23. \<open>add(v)\<close> without a key on an auto-increment store with out-of-line keys
  resolves with the key generator's current number \<open>c\<close>, stores \<open>v\<close> under it and
  advances the generator to \<open>c + 1\<close>, as long as \<open>c \<le> 2^53\<close>.
\<close>

theorem store_add_generated_key:
  fixes v :: jsval
  assumes txn: "txn_at w t = Some tx" "tx_state tx = TxActive" "tx_mode tx \<noteq> ReadOnly"
      "tx_pending tx = []"
    and st: "store_of w t s = Some os" "os_keyPath os = None" "os_generator os = Some c"
      "c \<le> max_generated_key" "map_of (os_records os) (KNum c) = None" "unique_ok os (KNum c) v"
  shows "let w1 = run_request t (snd (store_add (PromisedIndexedDbObjectStore (StoreHandle t s)) v None w))
         in w_proms w1 ! length (w_proms w) = Fulfilled (PJs (JNum c)) \<and>
            (\<exists>os'. store_of w1 t s = Some os' \<and> os_generator os' = Some (c + 1) \<and>
                   map_of (os_records os') (KNum c) = Some v)"
proof -
  have act: "txn_active w t" "txn_writable w t"
    using txn by (simp_all add: txn_active_def txn_writable_def)
  have nat: "native_store True t s v None (snd (new_promise w)) =
               Inr (place_request t (NStore True s v None) (snd (new_promise w)))"
    using st act by (simp add: native_store_def)
  have ex: "exec_on_stores (NStore True s v None) (txn_stores w t) =
              Inr (PJs (JNum c), AList.update s (os\<lparr>os_generator := Some (c + 1),
                                   os_records := ins_record (KNum c) v (os_records os)\<rparr>) (txn_stores w t))"
    using st store_record_generated [OF st(3,4,2,5,6)] by (simp add: exec_on_stores_def store_of_def)
  note run = promisify_run_ok [where native = "native_store True t s v None" and u = False,
      OF txn(1,4) nat ex]
  show ?thesis
    using run(1) run(3) [of s] by (simp add: store_add_promisify Let_def)
qed

theorem store_add_generated_key_witness:
  "txn_at demo_world 0 = Some demo_txn \<and> tx_state demo_txn = TxActive \<and>
   tx_mode demo_txn \<noteq> ReadOnly \<and> tx_pending demo_txn = [] \<and>
   store_of demo_world 0 ''items'' = Some items_store \<and> os_keyPath items_store = None \<and>
   os_generator items_store = Some 2 \<and> 2 \<le> max_generated_key \<and>
   map_of (os_records items_store) (KNum 2) = None \<and> unique_ok items_store (KNum 2) cup \<and>
   (let w1 = run_request 0 (snd (store_add (PromisedIndexedDbObjectStore (StoreHandle 0 ''items'')) cup None demo_world))
    in w_proms w1 ! length (w_proms demo_world) = Fulfilled (PJs (JNum 2)) \<and>
       (\<exists>os'. store_of w1 0 ''items'' = Some os' \<and> os_generator os' = Some (2 + 1) \<and>
              map_of (os_records os') (KNum 2) = Some cup))"
proof -
  have h: "txn_at demo_world 0 = Some demo_txn" "tx_state demo_txn = TxActive"
    "tx_mode demo_txn \<noteq> ReadOnly" "tx_pending demo_txn = []"
    "store_of demo_world 0 ''items'' = Some items_store" "os_keyPath items_store = None"
    "os_generator items_store = Some 2" "2 \<le> max_generated_key"
    "map_of (os_records items_store) (KNum 2) = None" "unique_ok items_store (KNum 2) cup"
    by code_simp+
  show ?thesis
    by (intro conjI h store_add_generated_key [OF h])
qed

text \<open>
  C24. Once the key generator has passed \<open>2^53\<close>, \<open>add(v)\<close> without a key is
  rejected with the request's error event and the transaction aborts.
\<close>

theorem store_add_generator_exhausted:
  fixes v :: jsval
  assumes txn: "txn_at w t = Some tx" "tx_state tx = TxActive" "tx_mode tx \<noteq> ReadOnly"
      "tx_pending tx = []"
    and nocancel: "\<not> list_ex (\<lambda>(e', cb). e' = TxError \<and> cb_cancels cb) (tx_listeners tx)"
    and st: "store_of w t s = Some os" "os_keyPath os = None" "os_generator os = Some c"
      "max_generated_key < c"
  shows "let w1 = run_request t (snd (store_add (PromisedIndexedDbObjectStore (StoreHandle t s)) v None w))
         in w_proms w1 ! length (w_proms w) = Rejected (RejEvent (length (w_reqs w))) \<and>
            map_option tx_state (txn_at w1 t) = Some TxAborted"
proof -
  have act: "txn_active w t" "txn_writable w t"
    using txn by (simp_all add: txn_active_def txn_writable_def)
  have nat: "native_store True t s v None (snd (new_promise w)) =
               Inr (place_request t (NStore True s v None) (snd (new_promise w)))"
    using st act by (simp add: native_store_def)
  have ex: "exec_on_stores (NStore True s v None) (txn_stores w t) = Inl ConstraintError"
    using st by (simp add: exec_on_stores_def store_of_def store_record_def generate_key_def)
  note run = promisify_run_fails [where native = "native_store True t s v None" and u = False,
      OF txn(1,4) nocancel nat ex]
  show ?thesis
    using run by (simp add: store_add_promisify Let_def)
qed


theorem store_add_generator_exhausted_witness:
  "let W = demo_world\<lparr>w_dbs := [(''shop'', \<lparr>db_version = 1,
              db_stores = [(''items'', items_store\<lparr>os_generator := Some (max_generated_key + 1)\<rparr>)]\<rparr>)]\<rparr>
   in txn_at W 0 = Some demo_txn \<and> tx_state demo_txn = TxActive \<and>
      tx_mode demo_txn \<noteq> ReadOnly \<and> tx_pending demo_txn = [] \<and>
      \<not> list_ex (\<lambda>(e', cb). e' = TxError \<and> cb_cancels cb) (tx_listeners demo_txn) \<and>
      store_of W 0 ''items'' = Some (items_store\<lparr>os_generator := Some (max_generated_key + 1)\<rparr>) \<and>
      os_keyPath (items_store\<lparr>os_generator := Some (max_generated_key + 1)\<rparr>) = None \<and>
      os_generator (items_store\<lparr>os_generator := Some (max_generated_key + 1)\<rparr>) = Some (max_generated_key + 1) \<and>
      max_generated_key < max_generated_key + 1 \<and>
      (let w1 = run_request 0 (snd (store_add (PromisedIndexedDbObjectStore (StoreHandle 0 ''items'')) cup None W))
       in w_proms w1 ! length (w_proms W) = Rejected (RejEvent (length (w_reqs W))) \<and>
          map_option tx_state (txn_at w1 0) = Some TxAborted)"
proof -
  define W where "W = demo_world\<lparr>w_dbs := [(''shop'', \<lparr>db_version = 1,
              db_stores = [(''items'', items_store\<lparr>os_generator := Some (max_generated_key + 1)\<rparr>)]\<rparr>)]\<rparr>"
  have h: "txn_at W 0 = Some demo_txn" "tx_state demo_txn = TxActive"
    "tx_mode demo_txn \<noteq> ReadOnly" "tx_pending demo_txn = []"
    "\<not> list_ex (\<lambda>(e', cb). e' = TxError \<and> cb_cancels cb) (tx_listeners demo_txn)"
    "store_of W 0 ''items'' = Some (items_store\<lparr>os_generator := Some (max_generated_key + 1)\<rparr>)"
    "os_keyPath (items_store\<lparr>os_generator := Some (max_generated_key + 1)\<rparr>) = None"
    "os_generator (items_store\<lparr>os_generator := Some (max_generated_key + 1)\<rparr>) = Some (max_generated_key + 1)"
    "max_generated_key < max_generated_key + 1"
    unfolding W_def by code_simp+
  have "let w1 = run_request 0 (snd (store_add (PromisedIndexedDbObjectStore (StoreHandle 0 ''items'')) cup None W))
       in w_proms w1 ! length (w_proms W) = Rejected (RejEvent (length (w_reqs W))) \<and>
          map_option tx_state (txn_at w1 0) = Some TxAborted"
    by (rule store_add_generator_exhausted [OF h])
  then show ?thesis
    using h unfolding W_def [symmetric] by (simp only: Let_def) simp
qed

end
