(* ===== verification/Transaction_Wrapper.thy ===== *)
theory Transaction_Wrapper
  imports Store_Wrapper
begin

text \<open>
  \<open>PromisedIndexedDbTransaction\<close> (\<open>src/src/index.ts\<close>, lines 298--364). Nothing
  here is asynchronous: \<open>abort\<close> and \<open>commit\<close> call the native methods and let
  their exceptions through, \<open>objectStore\<close> wraps the native store handle, and the
  three event-target methods pass the caller's listener and event to the native
  transaction unchanged.
\<close>

section \<open>Getters\<close>

definition txn_db :: "promised_txn \<Rightarrow> world \<Rightarrow> promised_db option" where
  "txn_db x w =
     (case x of PromisedIndexedDbTransaction t \<Rightarrow>
        map_option (\<lambda>tx. PromisedIndexedDb (tx_conn tx)) (txn_at w t))"

definition txn_mode :: "promised_txn \<Rightarrow> world \<Rightarrow> tx_mode option" where
  "txn_mode x w = (case x of PromisedIndexedDbTransaction t \<Rightarrow> map_option tx_mode (txn_at w t))"

definition txn_objectStoreNames :: "promised_txn \<Rightarrow> world \<Rightarrow> string list" where
  "txn_objectStoreNames x w =
     (case x of PromisedIndexedDbTransaction t \<Rightarrow>
        (case txn_at w t of None \<Rightarrow> [] | Some tx \<Rightarrow> tx_scope tx))"

section \<open>Methods\<close>

definition txn_abort :: "promised_txn \<Rightarrow> world \<Rightarrow> dom_error + world" where
  "txn_abort x w = (case x of PromisedIndexedDbTransaction t \<Rightarrow> native_abort t w)"

definition txn_commit :: "promised_txn \<Rightarrow> world \<Rightarrow> dom_error + world" where
  "txn_commit x w = (case x of PromisedIndexedDbTransaction t \<Rightarrow> native_commit t w)"

definition txn_objectStore :: "promised_txn \<Rightarrow> string \<Rightarrow> world \<Rightarrow> dom_error + promised_store" where
  "txn_objectStore x s w =
     (case x of PromisedIndexedDbTransaction t \<Rightarrow>
        map_sum id PromisedIndexedDbObjectStore (native_objectStore t s w))"

definition txn_addEventListener :: "promised_txn \<Rightarrow> tx_event \<Rightarrow> callback \<Rightarrow> world \<Rightarrow> world" where
  "txn_addEventListener x e cb w =
     (case x of PromisedIndexedDbTransaction t \<Rightarrow> native_addEventListener t e cb w)"

definition txn_removeEventListener :: "promised_txn \<Rightarrow> tx_event \<Rightarrow> callback \<Rightarrow> world \<Rightarrow> world" where
  "txn_removeEventListener x e cb w =
     (case x of PromisedIndexedDbTransaction t \<Rightarrow> native_removeEventListener t e cb w)"

definition txn_dispatchEvent :: "promised_txn \<Rightarrow> tx_event \<Rightarrow> bool \<Rightarrow> world \<Rightarrow> bool \<times> world" where
  "txn_dispatchEvent x e cancelable w =
     (case x of PromisedIndexedDbTransaction t \<Rightarrow> native_dispatchEvent t e cancelable w)"

section \<open>Events\<close>



text \<open>
  C12. Registering the same listener twice registers it once, and removing it then
  leaves the transaction with the listeners it had before.
\<close>

theorem txn_listener_add_twice_remove:
  assumes "txn_at w t = Some tx" "(e, cb) \<notin> set (tx_listeners tx)"
  shows "let x = PromisedIndexedDbTransaction t;
             w1 = txn_addEventListener x e cb (txn_addEventListener x e cb w)
         in map_option tx_listeners (txn_at w1 t) = Some (tx_listeners tx @ [(e, cb)]) \<and>
            map_option tx_listeners (txn_at (txn_removeEventListener x e cb w1) t) = Some (tx_listeners tx)"
  using assms
  by (simp add: txn_addEventListener_def txn_removeEventListener_def native_addEventListener_def
      native_removeEventListener_def txn_at_map_txn removeAll_id)

theorem txn_listener_add_twice_remove_witness:
  "txn_at demo_world 0 = Some demo_txn \<and> (TxComplete, Callback 1 False) \<notin> set (tx_listeners demo_txn) \<and>
   (let x = PromisedIndexedDbTransaction 0;
        w1 = txn_addEventListener x TxComplete (Callback 1 False) (txn_addEventListener x TxComplete (Callback 1 False) demo_world)
    in map_option tx_listeners (txn_at w1 0) = Some (tx_listeners demo_txn @ [(TxComplete, Callback 1 False)]) \<and>
       map_option tx_listeners (txn_at (txn_removeEventListener x TxComplete (Callback 1 False) w1) 0) =
         Some (tx_listeners demo_txn))"
proof -
  have h: "txn_at demo_world 0 = Some demo_txn" "(TxComplete, Callback 1 False) \<notin> set (tx_listeners demo_txn)"
    by code_simp+
  show ?thesis
    by (intro conjI h txn_listener_add_twice_remove [OF h])
qed

end
