(* ===== verification/Database_Wrapper.thy ===== *)
theory Database_Wrapper
  imports Transaction_Wrapper
begin

text \<open>
  \<open>PromisedIndexedDb\<close> (\<open>src/src/index.ts\<close>, lines 365--401): the connection
  wrapper. \<open>close\<close> and \<open>transaction\<close> forward to the native connection;
  \<open>transaction\<close> wraps the new native transaction and lets the native exception
  through.
\<close>

section \<open>Getters\<close>

definition db_name :: "promised_db \<Rightarrow> world \<Rightarrow> string option" where
  "db_name x w =
     (case x of PromisedIndexedDb c \<Rightarrow>
        (if c < length (w_conns w) then Some (cn_db (w_conns w ! c)) else None))"

definition db_version_of :: "promised_db \<Rightarrow> world \<Rightarrow> nat option" where
  "db_version_of x w =
     (case x of PromisedIndexedDb c \<Rightarrow>
        (if c < length (w_conns w)
         then map_option db_version (map_of (w_dbs w) (cn_db (w_conns w ! c))) else None))"

definition db_objectStoreNames :: "promised_db \<Rightarrow> world \<Rightarrow> string list" where
  "db_objectStoreNames x w =
     (case x of PromisedIndexedDb c \<Rightarrow>
        (case conn_stores w c of None \<Rightarrow> [] | Some ss \<Rightarrow> sort (map fst ss)))"

section \<open>Methods\<close>

definition db_close :: "promised_db \<Rightarrow> world \<Rightarrow> world" where
  "db_close x w = (case x of PromisedIndexedDb c \<Rightarrow> native_close c w)"

definition db_transaction ::
  "promised_db \<Rightarrow> string list \<Rightarrow> tx_mode option \<Rightarrow> world \<Rightarrow> dom_error + (promised_txn \<times> world)" where
  "db_transaction x names mode w =
     (case x of PromisedIndexedDb c \<Rightarrow>
        map_sum id (\<lambda>(t, w'). (PromisedIndexedDbTransaction t, w'))
          (native_transaction c names mode w))"

section \<open>Opening a transaction\<close>

text \<open>
  C13. \<open>transaction(names, mode)\<close> on an open connection either throws
  synchronously (\<open>NotFoundError\<close> when a name is not a store of the database,
  \<open>InvalidAccessError\<close> for no name) or returns a transaction wrapper whose
  \<open>objectStoreNames\<close> are the names sorted without duplicates, whose \<open>mode\<close> is
  the mode given (read-only by default), and whose \<open>db\<close> wraps the same connection.
\<close>

theorem db_transaction_result:
  assumes cs: "conn_stores w c = Some ss" and open_: "\<not> cn_closed (w_conns w ! c)"
    and mode: "mode \<noteq> Some VersionChange"
  shows "case db_transaction (PromisedIndexedDb c) names mode w of
           Inl e \<Rightarrow> e = (if list_all (\<lambda>n. map_of ss n \<noteq> None) names then InvalidAccessError else NotFoundError)
         | Inr (x, w') \<Rightarrow>
             list_all (\<lambda>n. map_of ss n \<noteq> None) names \<and> names \<noteq> [] \<and>
             txn_objectStoreNames x w' = sort (remdups names) \<and>
             txn_mode x w' = Some (case mode of None \<Rightarrow> ReadOnly | Some m \<Rightarrow> m) \<and>
             txn_db x w' = Some (PromisedIndexedDb c)"
proof (cases "list_all (\<lambda>n. map_of ss n \<noteq> None) names \<and> names \<noteq> []")
  case True
  then show ?thesis
    using native_transaction_ok [OF cs open_ _ _ mode, of names] new_txn_stores(1) [OF cs, of names mode]
    by (simp add: db_transaction_def txn_objectStoreNames_def txn_mode_def txn_db_def new_txn_def)
next
  case False
  then show ?thesis
    using cs open_ by (auto simp: db_transaction_def native_transaction_def)
qed

theorem db_transaction_result_witness:
  "conn_stores demo_world 0 = Some shop_stores \<and> \<not> cn_closed (w_conns demo_world ! 0) \<and>
   Some ReadWrite \<noteq> Some VersionChange \<and>
   (case db_transaction (PromisedIndexedDb 0) [''people'', ''items'', ''people''] (Some ReadWrite) demo_world of
      Inl e \<Rightarrow> e = (if list_all (\<lambda>n. map_of shop_stores n \<noteq> None) [''people'', ''items'', ''people'']
                    then InvalidAccessError else NotFoundError)
    | Inr (x, w') \<Rightarrow>
        list_all (\<lambda>n. map_of shop_stores n \<noteq> None) [''people'', ''items'', ''people''] \<and>
        [''people'', ''items'', ''people''] \<noteq> [] \<and>
        txn_objectStoreNames x w' = sort (remdups [''people'', ''items'', ''people'']) \<and>
        txn_mode x w' = Some (case Some ReadWrite of None \<Rightarrow> ReadOnly | Some m \<Rightarrow> m) \<and>
        txn_db x w' = Some (PromisedIndexedDb 0))"
proof -
  have h: "conn_stores demo_world 0 = Some shop_stores" "\<not> cn_closed (w_conns demo_world ! 0)"
    "Some ReadWrite \<noteq> Some VersionChange"
    by code_simp+
  show ?thesis
    by (intro conjI h db_transaction_result [OF h])
qed

end
