(* ===== verification/Open_Database.thy ===== *)
theory Open_Database
  imports Database_Wrapper
begin

text \<open>
  \<open>openDatabase(name, version, migration, blocked)\<close> (\<open>src/src/index.ts\<close>, lines
  403--437) and the part of the host it drives: \<open>indexedDB.open\<close> and the
  host's processing of an open request (the IndexedDB specification's "open a
  database connection" and "upgrade a database"). The open request waits while
  another connection to the database is open and a version change is needed; the
  host then fires \<open>blocked\<close> at it (\<open>open_blocked\<close>). Once it can proceed
  (\<open>run_open\<close>) the host creates the database if needed and the connection, and for a
  higher version runs a version-change transaction in which it fires
  \<open>upgradeneeded\<close>: the wrapper's listener calls the migration with the raw
  connection. If the migration throws, the upgrade is aborted and the request fails.
\<close>

section \<open>Host: opening a database\<close>

text \<open>
  \<open>indexedDB.open(name, version)\<close>: the version is an
  \<open>[EnforceRange] unsigned long long\<close> and must not be 0, otherwise a
  \<open>TypeError\<close> is thrown; the request is placed without a transaction.
\<close>

definition native_open :: "string \<Rightarrow> int \<Rightarrow> world \<Rightarrow> dom_error + (addr \<times> world)" where
  "native_open name v w =
     (if v < 1 \<or> 2 ^ 53 \<le> v then Inl TypeError
      else (let (r, rs) = alloc \<lparr>rq_txn = None, rq_op = NOpen name (nat v), rq_result = None,
                                 rq_listeners = []\<rparr> (w_reqs w)
            in Inr (r, w\<lparr>w_reqs := rs\<rparr>)))"

definition db_old_version :: "world \<Rightarrow> string \<Rightarrow> nat" where
  "db_old_version w name = (case map_of (w_dbs w) name of None \<Rightarrow> 0 | Some d \<Rightarrow> db_version d)"

definition has_open_conn :: "world \<Rightarrow> string \<Rightarrow> bool" where
  "has_open_conn w name = list_ex (\<lambda>cn. cn_db cn = name \<and> \<not> cn_closed cn) (w_conns w)"

text \<open>The open request \<open>r\<close>, still unanswered: its database name and version.\<close>

definition pending_open :: "world \<Rightarrow> addr \<Rightarrow> (string \<times> nat) option" where
  "pending_open w r =
     (case req_at w r of
        None \<Rightarrow> None
      | Some rq \<Rightarrow>
          (case (rq_op rq, rq_result rq) of
             (NOpen name v, None) \<Rightarrow> Some (name, v)
           | _ \<Rightarrow> None))"

text \<open>
  \<open>blocked\<close>: a version change is needed and another connection to the database is
  still open; the event carries the old and the requested version.
\<close>

definition open_blocked :: "addr \<Rightarrow> world \<Rightarrow> world" where
  "open_blocked r w =
     (case pending_open w r of
        None \<Rightarrow> w
      | Some (name, v) \<Rightarrow>
          (if db_old_version w name < v \<and> has_open_conn w name
           then fire_request ReqBlocked r (db_old_version w name) (Some v) w
           else w))"

text \<open>A new connection to the database \<open>name\<close>, creating the database (version 0, no stores) if needed.\<close>

definition open_connection :: "string \<Rightarrow> world \<Rightarrow> addr \<times> world" where
  "open_connection name w =
     (let w1 = (if map_of (w_dbs w) name = None
                then w\<lparr>w_dbs := w_dbs w @ [(name, \<lparr>db_version = 0, db_stores = []\<rparr>)]\<rparr> else w);
          (c, cs) = alloc \<lparr>cn_db = name, cn_closed = False\<rparr> (w_conns w1)
      in (c, w1\<lparr>w_conns := cs\<rparr>))"

text \<open>
  The version-change transaction over every store of the database, started at once,
  its backup the stores as they were; the request's \<open>result\<close> is the connection and
  its \<open>transaction\<close> the new transaction; the database takes the new version.
\<close>

definition upgrade_txn :: "addr \<Rightarrow> (string \<times> object_store) list \<Rightarrow> transaction" where
  "upgrade_txn c ss =
     \<lparr>tx_conn = c, tx_scope = map fst ss, tx_mode = VersionChange, tx_state = TxActive,
      tx_started = True, tx_pending = [], tx_backup = ss, tx_listeners = []\<rparr>"

definition begin_upgrade :: "addr \<Rightarrow> addr \<Rightarrow> string \<Rightarrow> nat \<Rightarrow> world \<Rightarrow> addr \<times> world" where
  "begin_upgrade r c name v w =
     (let ss = (case map_of (w_dbs w) name of None \<Rightarrow> [] | Some d \<Rightarrow> db_stores d);
          (t, ts) = alloc (upgrade_txn c ss) (w_txns w);
          w1 = map_req r (\<lambda>rq. rq\<lparr>rq_txn := Some t, rq_result := Some (Inr (PConn c))\<rparr>) (w\<lparr>w_txns := ts\<rparr>)
      in (t, map_db name (\<lambda>d. d\<lparr>db_version := v\<rparr>) w1))"

text \<open>
  After the \<open>upgradeneeded\<close> listeners ran: if the transaction was aborted the
  database gets back its stores and version, the connection is closed and the request
  fails with \<open>AbortError\<close>; otherwise the transaction commits and the request
  succeeds with the connection.
\<close>

definition finish_upgrade :: "addr \<Rightarrow> addr \<Rightarrow> addr \<Rightarrow> string \<Rightarrow> nat \<Rightarrow> world \<Rightarrow> world" where
  "finish_upgrade r c t name old w =
     (case txn_at w t of
        None \<Rightarrow> w
      | Some tx \<Rightarrow>
          (if tx_state tx = TxAborted
           then fire_request ReqError r 0 None
                  (map_req r (\<lambda>rq. rq\<lparr>rq_txn := None, rq_result := Some (Inl AbortError)\<rparr>)
                    (map_db name (\<lambda>d. d\<lparr>db_version := old, db_stores := tx_backup tx\<rparr>)
                      (w\<lparr>w_conns := upd_at c (\<lambda>cn. cn\<lparr>cn_closed := True\<rparr>) (w_conns w)\<rparr>)))
           else fire_request ReqSuccess r 0 None
                  (map_req r (\<lambda>rq. rq\<lparr>rq_txn := None\<rparr>)
                    (map_txn t (\<lambda>tx. tx\<lparr>tx_state := TxCommitted\<rparr>) w))))"

text \<open>
  Processing an open request that can proceed: a lower version than the database's
  fails with \<open>VersionError\<close>; a higher one waits while another connection is open;
  otherwise the connection is opened, upgraded if the version is higher.
\<close>

definition run_open :: "addr \<Rightarrow> world \<Rightarrow> world" where
  "run_open r w =
     (case pending_open w r of
        None \<Rightarrow> w
      | Some (name, v) \<Rightarrow>
          (let old = db_old_version w name in
           if v < old then fire_request ReqError r 0 None (set_result r (Inl VersionError) w)
           else if old < v \<and> has_open_conn w name then w
           else
             (let (c, w1) = open_connection name w in
              if old < v then
                (let (t, w2) = begin_upgrade r c name v w1;
                     w3 = fire_request ReqUpgradeNeeded r old (Some v) w2
                 in finish_upgrade r c t name old w3)
              else fire_request ReqSuccess r 0 None (set_result r (Inr (PConn c)) w1))))"

section \<open>The entry point\<close>

text \<open>
  \<open>openDatabase\<close>: the executor calls \<open>indexedDB.open\<close>, then registers the
  \<open>success\<close> listener (resolve with a new \<open>PromisedIndexedDb\<close> around the
  request's result), the \<open>error\<close> listener (reject with the event), the
  \<open>upgradeneeded\<close> listener (call the migration with the raw connection and the
  event's versions), and, only when a \<open>blocked\<close> callback was given, the
  \<open>blocked\<close> listener calling it with the event's versions. The callbacks are named
  by an identity (\<open>blocked\<close>) or by the schema changes they make (\<open>migration\<close>).
\<close>

definition openDatabase :: "string \<Rightarrow> int \<Rightarrow> migration \<Rightarrow> nat option \<Rightarrow> world \<Rightarrow> addr \<times> world" where
  "openDatabase name version migration blocked w =
     (let (p, w1) = new_promise w in
      case native_open name version w1 of
        Inl e \<Rightarrow> (p, reject_promise p (RejException e) w1)
      | Inr (r, w2) \<Rightarrow>
          (let w3 = add_req_listener r ReqSuccess (ResolveDb p) w2;
               w4 = add_req_listener r ReqError (RejectEvent p) w3;
               w5 = add_req_listener r ReqUpgradeNeeded (RunMigration migration) w4
           in (p, case blocked of
                    None \<Rightarrow> w5
                  | Some b \<Rightarrow> add_req_listener r ReqBlocked (RunBlocked b) w5)))"

text \<open>The listeners \<open>openDatabase\<close> leaves on its request, in registration order.\<close>

definition open_listeners :: "addr \<Rightarrow> migration \<Rightarrow> nat option \<Rightarrow> (req_event \<times> handler) list" where
  "open_listeners p m b =
     [(ReqSuccess, ResolveDb p), (ReqError, RejectEvent p), (ReqUpgradeNeeded, RunMigration m)] @
     (case b of None \<Rightarrow> [] | Some b' \<Rightarrow> [(ReqBlocked, RunBlocked b')])"

section \<open>How an open request is processed\<close>

lemma open_listeners_filter [simp]:
  "map snd (filter (\<lambda>(e', h). e' = ReqSuccess) (open_listeners p m b)) = [ResolveDb p]"
  "map snd (filter (\<lambda>(e', h). e' = ReqError) (open_listeners p m b)) = [RejectEvent p]"
  "map snd (filter (\<lambda>(e', h). e' = ReqUpgradeNeeded) (open_listeners p m b)) = [RunMigration m]"
  "map snd (filter (\<lambda>(e', h). e' = ReqBlocked) (open_listeners p m b)) =
     (case b of None \<Rightarrow> [] | Some b' \<Rightarrow> [RunBlocked b'])"
  by (simp_all add: open_listeners_def split: option.split)


lemma openDatabase_placed:
  assumes "1 \<le> v" "v < 2 ^ 53"
  shows "openDatabase name v m b w =
           (length (w_proms w),
            w\<lparr>w_proms := w_proms w @ [Pending],
              w_reqs := w_reqs w @ [\<lparr>rq_txn = None, rq_op = NOpen name (nat v), rq_result = None,
                 rq_listeners = open_listeners (length (w_proms w)) m b\<rparr>]\<rparr>)"
  using assms
  by (simp add: openDatabase_def new_promise_eq native_open_def alloc_def add_req_listener_def map_req_def
      open_listeners_def split: option.split)

lemma run_open_upgrade:
  assumes "pending_open w r = Some (name, v)" "db_old_version w name < v" "\<not> has_open_conn w name"
  shows "run_open r w =
           (let (c, w1) = open_connection name w; (t, w2) = begin_upgrade r c name v w1
            in finish_upgrade r c t name (db_old_version w name)
                 (fire_request ReqUpgradeNeeded r (db_old_version w name) (Some v) w2))"
  using assms by (simp add: run_open_def Let_def)

lemma open_views_log [simp]:
  "pending_open (w\<lparr>w_log := l\<rparr>) = pending_open w" "db_old_version (w\<lparr>w_log := l\<rparr>) = db_old_version w"
  "has_open_conn (w\<lparr>w_log := l\<rparr>) = has_open_conn w"
  by (simp_all add: fun_eq_iff pending_open_def req_at_def db_old_version_def has_open_conn_def)

lemma openDatabase_views:
  assumes "1 \<le> v" "v < 2 ^ 53" "openDatabase name v m b w = (p, W)"
  shows "p = length (w_proms w)"
    and "pending_open W (length (w_reqs w)) = Some (name, nat v)"
    and "req_at W (length (w_reqs w)) = Some \<lparr>rq_txn = None, rq_op = NOpen name (nat v), rq_result = None,
                 rq_listeners = open_listeners (length (w_proms w)) m b\<rparr>"
    and "db_old_version W = db_old_version w" "has_open_conn W = has_open_conn w"
    and "w_proms W = w_proms w @ [Pending]" "w_dbs W = w_dbs w" "w_conns W = w_conns w" "w_log W = w_log w"
  using assms
  by (auto simp: openDatabase_placed pending_open_def req_at_def db_old_version_def has_open_conn_def
      fun_eq_iff)

text \<open>
  Opening a database that does not exist: everything up to the migration, which
  runs in the new version-change transaction on the empty store list.
\<close>

lemma run_open_fresh_prefix:
  assumes new: "map_of (w_dbs w) name = None" "\<not> has_open_conn w name"
    and v: "1 \<le> v" "v < 2 ^ 53"
  obtains W2 where "fst (openDatabase name v m b w) = length (w_proms w)"
    and "run_open (length (w_reqs w)) (snd (openDatabase name v m b w)) =
           finish_upgrade (length (w_reqs w)) (length (w_conns w)) (length (w_txns w)) name 0
             (run_migration (length (w_reqs w)) m 0 (Some (nat v)) W2)"
    and "req_at W2 (length (w_reqs w)) =
           Some \<lparr>rq_txn = Some (length (w_txns w)), rq_op = NOpen name (nat v),
                 rq_result = Some (Inr (PConn (length (w_conns w)))),
                 rq_listeners = open_listeners (length (w_proms w)) m b\<rparr>"
    and "w_txns W2 = w_txns w @ [upgrade_txn (length (w_conns w)) []]"
    and "w_conns W2 = w_conns w @ [\<lparr>cn_db = name, cn_closed = False\<rparr>]"
    and "w_dbs W2 = w_dbs w @ [(name, \<lparr>db_version = nat v, db_stores = []\<rparr>)]"
    and "w_proms W2 = w_proms w @ [Pending]" and "w_log W2 = w_log w"
proof -
  let ?p = "length (w_proms w)" and ?r = "length (w_reqs w)" and ?c = "length (w_conns w)"
    and ?t = "length (w_txns w)" and ?v = "nat v" and ?L = "open_listeners (length (w_proms w)) m b"
  define W where "W = w\<lparr>w_proms := w_proms w @ [Pending],
              w_reqs := w_reqs w @ [\<lparr>rq_txn = None, rq_op = NOpen name ?v, rq_result = None, rq_listeners = ?L\<rparr>]\<rparr>"
  define W1 where "W1 = W\<lparr>w_dbs := w_dbs w @ [(name, \<lparr>db_version = 0, db_stores = []\<rparr>)],
              w_conns := w_conns w @ [\<lparr>cn_db = name, cn_closed = False\<rparr>]\<rparr>"
  define W2 where "W2 = W1\<lparr>w_txns := w_txns w @ [upgrade_txn ?c []],
              w_reqs := w_reqs w @ [\<lparr>rq_txn = Some ?t, rq_op = NOpen name ?v,
                                     rq_result = Some (Inr (PConn ?c)), rq_listeners = ?L\<rparr>],
              w_dbs := w_dbs w @ [(name, \<lparr>db_version = ?v, db_stores = []\<rparr>)]\<rparr>"
  have od: "openDatabase name v m b w = (?p, W)"
    using v by (simp add: openDatabase_placed W_def)
  have po: "pending_open W ?r = Some (name, ?v)" and old: "db_old_version W name = 0"
    and hc: "\<not> has_open_conn W name"
    using new v by (simp_all add: W_def pending_open_def req_at_def db_old_version_def has_open_conn_def)
  have oc: "open_connection name W = (?c, W1)"
    using new by (simp add: open_connection_def alloc_def W_def W1_def)
  have bu: "begin_upgrade ?r ?c name ?v W1 = (?t, W2)"
    using new by (simp add: begin_upgrade_def alloc_def W_def W1_def W2_def upgrade_txn_def map_req_def
        map_db_def update_append_fresh Let_def)
  have rq2: "req_at W2 ?r = Some \<lparr>rq_txn = Some ?t, rq_op = NOpen name ?v,
                                     rq_result = Some (Inr (PConn ?c)), rq_listeners = ?L\<rparr>"
    by (simp add: W2_def W1_def W_def req_at_def)
  have "fire_request ReqUpgradeNeeded ?r 0 (Some ?v) W2 = run_migration ?r m 0 (Some ?v) W2"
    using fire_request_listeners [OF rq2] by simp
  then have "run_open ?r W = finish_upgrade ?r ?c ?t name 0 (run_migration ?r m 0 (Some ?v) W2)"
    using run_open_upgrade [OF po _ hc] old v oc bu by simp
  then show ?thesis
    using that [of W2] od rq2 by (simp add: W2_def W1_def W_def)
qed

lemma fresh_upgrade_views:
  assumes "w_txns W2 = w_txns w @ [upgrade_txn (length (w_conns w)) []]"
    and "w_conns W2 = w_conns w @ [\<lparr>cn_db = name, cn_closed = False\<rparr>]"
    and "w_dbs W2 = w_dbs w @ [(name, \<lparr>db_version = v, db_stores = []\<rparr>)]"
    and "map_of (w_dbs w) name = None"
  shows "txn_at W2 (length (w_txns w)) = Some (upgrade_txn (length (w_conns w)) [])"
    and "txn_db_name W2 (upgrade_txn (length (w_conns w)) []) = Some name"
    and "txn_stores W2 (length (w_txns w)) = []"
  using assms by (simp_all add: txn_at_def txn_db_name_def txn_stores_def upgrade_txn_def)


section \<open>Properties of openDatabase\<close>

text \<open>
  C14. \<open>openDatabase(name, version, migration)\<close> on a database that does not exist
  yet, no other connection to it being open: once the host has processed the open
  request, the migration has been called once with \<open>(0, version)\<close>, the database
  exists at \<open>version\<close> with the stores the migration created, and the promise is
  fulfilled with a \<open>PromisedIndexedDb\<close> around the new connection.
\<close>

theorem openDatabase_fresh_upgrade:
  assumes new: "map_of (w_dbs w) name = None" "\<not> has_open_conn w name"
    and v: "1 \<le> v" "v < 2 ^ 53"
    and mig: "apply_schema_ops (m 0 (Some (nat v))) [] = Inr ss"
  shows "let (p, w1) = openDatabase name v m b w; w2 = run_open (length (w_reqs w)) w1 in
           w_proms w2 ! p = Fulfilled (PDb (PromisedIndexedDb (length (w_conns w)))) \<and>
           map_of (w_dbs w2) name = Some \<lparr>db_version = nat v, db_stores = ss\<rparr> \<and>
           w_log w2 = w_log w @ [CalledMigration 0 (Some (nat v))]"
proof -
  let ?p = "length (w_proms w)" and ?r = "length (w_reqs w)" and ?c = "length (w_conns w)"
    and ?t = "length (w_txns w)" and ?v = "nat v"
  obtain W2 where p: "fst (openDatabase name v m b w) = ?p"
    and ro: "run_open ?r (snd (openDatabase name v m b w)) =
               finish_upgrade ?r ?c ?t name 0 (run_migration ?r m 0 (Some ?v) W2)"
    and rq2: "req_at W2 ?r = Some \<lparr>rq_txn = Some ?t, rq_op = NOpen name ?v,
                 rq_result = Some (Inr (PConn ?c)), rq_listeners = open_listeners ?p m b\<rparr>"
    and f2: "w_txns W2 = w_txns w @ [upgrade_txn ?c []]"
      "w_conns W2 = w_conns w @ [\<lparr>cn_db = name, cn_closed = False\<rparr>]"
      "w_dbs W2 = w_dbs w @ [(name, \<lparr>db_version = ?v, db_stores = []\<rparr>)]"
      "w_proms W2 = w_proms w @ [Pending]" "w_log W2 = w_log w"
    by (rule run_open_fresh_prefix [OF new v])
  note vw = fresh_upgrade_views [OF f2(1-3) new(1)]
  define W3 where "W3 = W2\<lparr>w_log := w_log w @ [CalledMigration 0 (Some ?v)],
              w_dbs := w_dbs w @ [(name, \<lparr>db_version = ?v, db_stores = ss\<rparr>)]\<rparr>"
  have mg: "run_migration ?r m 0 (Some ?v) W2 = W3"
    using rq2 vw mig new f2 by (simp add: run_migration_def set_txn_stores_def map_db_def W3_def
        update_append_fresh)
  define W4 where "W4 = map_req ?r (\<lambda>rq. rq\<lparr>rq_txn := None\<rparr>) (map_txn ?t (\<lambda>tx. tx\<lparr>tx_state := TxCommitted\<rparr>) W3)"
  have rq4: "req_at W4 ?r = Some \<lparr>rq_txn = None, rq_op = NOpen name ?v,
                                     rq_result = Some (Inr (PConn ?c)), rq_listeners = open_listeners ?p m b\<rparr>"
    using rq2 req_at_frame [of "map_txn ?t (\<lambda>tx. tx\<lparr>tx_state := TxCommitted\<rparr>) W3" W2]
    by (simp add: W4_def W3_def req_at_map_req)
  have "finish_upgrade ?r ?c ?t name 0 W3 = fire_request ReqSuccess ?r 0 None W4"
    using vw(1) txn_at_frame [of W3 W2] by (simp add: finish_upgrade_def W4_def W3_def upgrade_txn_def)
  also have "\<dots> = resolve_promise ?p (PDb (PromisedIndexedDb ?c)) W4"
    using fire_request_listeners [OF rq4] rq4 by (simp add: req_result_def)
  finally have "run_open ?r (snd (openDatabase name v m b w)) = resolve_promise ?p (PDb (PromisedIndexedDb ?c)) W4"
    using ro mg by simp
  moreover obtain p0 W0 where od: "openDatabase name v m b w = (p0, W0)"
    by fastforce
  ultimately show ?thesis
    using p f2 new by (simp add: resolve_promise_def settle_def W4_def W3_def)
qed


theorem openDatabase_fresh_upgrade_witness:
  "map_of (w_dbs empty_world) ''shop'' = None \<and> \<not> has_open_conn empty_world ''shop'' \<and>
   1 \<le> (1::int) \<and> (1::int) < 2 ^ 53 \<and>
   apply_schema_ops (shop_migration 0 (Some (nat 1))) [] = Inr [(''items'', empty_store None True)] \<and>
   (let (p, w1) = openDatabase ''shop'' 1 shop_migration None empty_world;
        w2 = run_open (length (w_reqs empty_world)) w1 in
    w_proms w2 ! p = Fulfilled (PDb (PromisedIndexedDb (length (w_conns empty_world)))) \<and>
    map_of (w_dbs w2) ''shop'' = Some \<lparr>db_version = nat 1, db_stores = [(''items'', empty_store None True)]\<rparr> \<and>
    w_log w2 = w_log empty_world @ [CalledMigration 0 (Some (nat 1))])"
proof -
  have h: "map_of (w_dbs empty_world) ''shop'' = None" "\<not> has_open_conn empty_world ''shop''"
    "1 \<le> (1::int)" "(1::int) < 2 ^ 53"
    "apply_schema_ops (shop_migration 0 (Some (nat 1))) [] = Inr [(''items'', empty_store None True)]"
    by code_simp+
  show ?thesis
    by (intro conjI h openDatabase_fresh_upgrade [where m = shop_migration, OF h])
qed

text \<open>
  C15. When the migration throws during the upgrade of a new database, the upgrade
  is aborted: the promise is rejected with the open request's error event, the
  database is left at version 0 with no connection open, and the migration was
  called once.
\<close>

theorem openDatabase_migration_throws:
  assumes new: "map_of (w_dbs w) name = None" "\<not> has_open_conn w name"
    and v: "1 \<le> v" "v < 2 ^ 53"
    and mig: "apply_schema_ops (m 0 (Some (nat v))) [] = Inl e"
  shows "let (p, w1) = openDatabase name v m b w; w2 = run_open (length (w_reqs w)) w1 in
           w_proms w2 ! p = Rejected (RejEvent (length (w_reqs w))) \<and>
           db_old_version w2 name = 0 \<and> \<not> has_open_conn w2 name \<and>
           w_log w2 = w_log w @ [CalledMigration 0 (Some (nat v))]"
proof -
  let ?p = "length (w_proms w)" and ?r = "length (w_reqs w)" and ?c = "length (w_conns w)"
    and ?t = "length (w_txns w)" and ?v = "nat v"
  obtain W2 where p: "fst (openDatabase name v m b w) = ?p"
    and ro: "run_open ?r (snd (openDatabase name v m b w)) =
               finish_upgrade ?r ?c ?t name 0 (run_migration ?r m 0 (Some ?v) W2)"
    and rq2: "req_at W2 ?r = Some \<lparr>rq_txn = Some ?t, rq_op = NOpen name ?v,
                 rq_result = Some (Inr (PConn ?c)), rq_listeners = open_listeners ?p m b\<rparr>"
    and f2: "w_txns W2 = w_txns w @ [upgrade_txn ?c []]"
      "w_conns W2 = w_conns w @ [\<lparr>cn_db = name, cn_closed = False\<rparr>]"
      "w_dbs W2 = w_dbs w @ [(name, \<lparr>db_version = ?v, db_stores = []\<rparr>)]"
      "w_proms W2 = w_proms w @ [Pending]" "w_log W2 = w_log w"
    by (rule run_open_fresh_prefix [OF new v])
  note vw = fresh_upgrade_views [OF f2(1-3) new(1)]
  define W3 where "W3 = map_txn ?t (\<lambda>tx. tx\<lparr>tx_state := TxAborted\<rparr>)
                          (W2\<lparr>w_log := w_log w @ [CalledMigration 0 (Some ?v)]\<rparr>)"
  have mg: "run_migration ?r m 0 (Some ?v) W2 = W3"
    using rq2 vw mig f2 by (simp add: run_migration_def W3_def)
  define W4 where "W4 = map_req ?r (\<lambda>rq. rq\<lparr>rq_txn := None, rq_result := Some (Inl AbortError)\<rparr>)
      (map_db name (\<lambda>d. d\<lparr>db_version := 0, db_stores := []\<rparr>)
        (W3\<lparr>w_conns := upd_at ?c (\<lambda>cn. cn\<lparr>cn_closed := True\<rparr>) (w_conns W3)\<rparr>))"
  have rq4: "req_at W4 ?r = Some \<lparr>rq_txn = None, rq_op = NOpen name ?v,
                                     rq_result = Some (Inl AbortError), rq_listeners = open_listeners ?p m b\<rparr>"
    using rq2 req_at_frame [of "map_db name (\<lambda>d. d\<lparr>db_version := 0, db_stores := []\<rparr>)
        (W3\<lparr>w_conns := upd_at ?c (\<lambda>cn. cn\<lparr>cn_closed := True\<rparr>) (w_conns W3)\<rparr>)" W2]
    by (simp add: W4_def W3_def req_at_map_req)
  have "finish_upgrade ?r ?c ?t name 0 W3 = fire_request ReqError ?r 0 None W4"
    using vw(1) by (simp add: finish_upgrade_def W4_def W3_def txn_at_map_txn upgrade_txn_def)
  also have "\<dots> = reject_promise ?p (RejEvent ?r) W4"
    using fire_request_listeners [OF rq4] by simp
  finally have "run_open ?r (snd (openDatabase name v m b w)) = reject_promise ?p (RejEvent ?r) W4"
    using ro mg by simp
  moreover obtain p0 W0 where od: "openDatabase name v m b w = (p0, W0)"
    by fastforce
  moreover have "w_dbs W4 = w_dbs w @ [(name, \<lparr>db_version = 0, db_stores = []\<rparr>)]"
    using f2 new by (simp add: W4_def W3_def map_db_def update_append_fresh)
  moreover have "w_conns W4 = w_conns w @ [\<lparr>cn_db = name, cn_closed = True\<rparr>]"
    using f2 by (simp add: W4_def W3_def)
  ultimately show ?thesis
    using p f2 new by (simp add: reject_promise_def settle_def W4_def W3_def db_old_version_def
        has_open_conn_def)
qed


theorem openDatabase_migration_throws_witness:
  "map_of (w_dbs empty_world) ''shop'' = None \<and> \<not> has_open_conn empty_world ''shop'' \<and>
   1 \<le> (2::int) \<and> (2::int) < 2 ^ 53 \<and>
   apply_schema_ops (bad_migration 0 (Some (nat 2))) [] = Inl ConstraintError \<and>
   (let (p, w1) = openDatabase ''shop'' 2 bad_migration (Some 4) empty_world;
        w2 = run_open (length (w_reqs empty_world)) w1 in
    w_proms w2 ! p = Rejected (RejEvent (length (w_reqs empty_world))) \<and>
    db_old_version w2 ''shop'' = 0 \<and> \<not> has_open_conn w2 ''shop'' \<and>
    w_log w2 = w_log empty_world @ [CalledMigration 0 (Some (nat 2))])"
proof -
  have h: "map_of (w_dbs empty_world) ''shop'' = None" "\<not> has_open_conn empty_world ''shop''"
    "1 \<le> (2::int)" "(2::int) < 2 ^ 53"
    "apply_schema_ops (bad_migration 0 (Some (nat 2))) [] = Inl ConstraintError"
    by code_simp+
  show ?thesis
    by (intro conjI h openDatabase_migration_throws [where m = bad_migration, OF h])
qed

text \<open>
  C16. When a version change is needed and another connection to the database is
  still open, the host fires \<open>blocked\<close>: the caller's \<open>blocked\<close> callback, when
  one was given, is called with the old and the requested version, and nothing else
  happens; the promise stays pending and the request keeps waiting.
\<close>

theorem openDatabase_blocked:
  assumes v: "1 \<le> v" "v < 2 ^ 53"
    and blk: "db_old_version w name < nat v" "has_open_conn w name"
  shows "let (p, w1) = openDatabase name v m b w; w2 = open_blocked (length (w_reqs w)) w1 in
           w_proms w2 ! p = Pending \<and>
           w_log w2 = w_log w @ (case b of None \<Rightarrow> []
                                 | Some b' \<Rightarrow> [CalledBlocked b' (db_old_version w name) (Some (nat v))]) \<and>
           run_open (length (w_reqs w)) w2 = w2"
proof -
  obtain p W where od: "openDatabase name v m b w = (p, W)"
    by fastforce
  note vw = openDatabase_views [OF v od]
  let ?r = "length (w_reqs w)" and ?o = "db_old_version w name"
  have ob: "open_blocked ?r W = fire_request ReqBlocked ?r ?o (Some (nat v)) W"
    using vw blk by (simp add: open_blocked_def)
  also have "\<dots> = fold (run_handler ?r ?o (Some (nat v))) (case b of None \<Rightarrow> [] | Some b' \<Rightarrow> [RunBlocked b']) W"
    using fire_request_listeners [OF vw(3)] by simp
  also have "\<dots> = (case b of None \<Rightarrow> W
                   | Some b' \<Rightarrow> W\<lparr>w_log := w_log W @ [CalledBlocked b' ?o (Some (nat v))]\<rparr>)"
    by (simp split: option.split)
  finally have b1: "open_blocked ?r W = \<dots>" .
  have "pending_open (open_blocked ?r W) ?r = Some (name, nat v)"
    "db_old_version (open_blocked ?r W) = db_old_version w"
    "has_open_conn (open_blocked ?r W) = has_open_conn w"
    using vw unfolding b1 by (simp_all split: option.split)
  then have "run_open ?r (open_blocked ?r W) = open_blocked ?r W"
    using blk by (simp add: run_open_def)
  then show ?thesis
    using od vw b1 by (simp split: option.split)
qed

theorem openDatabase_blocked_witness:
  "1 \<le> (2::int) \<and> (2::int) < 2 ^ 53 \<and> db_old_version demo_world ''shop'' < nat 2 \<and>
   has_open_conn demo_world ''shop'' \<and>
   (let (p, w1) = openDatabase ''shop'' 2 shop_migration (Some 4) demo_world;
        w2 = open_blocked (length (w_reqs demo_world)) w1 in
    w_proms w2 ! p = Pending \<and>
    w_log w2 = w_log demo_world @ (case Some (4::nat) of None \<Rightarrow> []
                                   | Some b' \<Rightarrow> [CalledBlocked b' (db_old_version demo_world ''shop'') (Some (nat 2))]) \<and>
    run_open (length (w_reqs demo_world)) w2 = w2)"
proof -
  have h: "1 \<le> (2::int)" "(2::int) < 2 ^ 53" "db_old_version demo_world ''shop'' < nat 2"
    "has_open_conn demo_world ''shop''"
    by code_simp+
  show ?thesis
    by (intro conjI h openDatabase_blocked [OF h])
qed

text \<open>
  C17. Opening with a version lower than the database's rejects the promise with the
  request's error event (\<open>VersionError\<close>), and no database or connection changes.
\<close>

theorem openDatabase_version_error:
  assumes v: "1 \<le> v" "v < 2 ^ 53"
    and old: "map_of (w_dbs w) name = Some d" "nat v < db_version d"
  shows "let (p, w1) = openDatabase name v m b w; w2 = run_open (length (w_reqs w)) w1 in
           w_proms w2 ! p = Rejected (RejEvent (length (w_reqs w))) \<and>
           w_dbs w2 = w_dbs w \<and> w_conns w2 = w_conns w"
proof -
  obtain p W where od: "openDatabase name v m b w = (p, W)"
    by fastforce
  note vw = openDatabase_views [OF v od]
  let ?r = "length (w_reqs w)"
  have rq: "req_at (set_result ?r (Inl VersionError) W) ?r =
              Some \<lparr>rq_txn = None, rq_op = NOpen name (nat v), rq_result = Some (Inl VersionError),
                    rq_listeners = open_listeners (length (w_proms w)) m b\<rparr>"
    using vw(3) by (simp add: req_at_set_result)
  have "run_open ?r W = fire_request ReqError ?r 0 None (set_result ?r (Inl VersionError) W)"
    using vw old by (simp add: run_open_def db_old_version_def)
  also have "\<dots> = reject_promise p (RejEvent ?r) (set_result ?r (Inl VersionError) W)"
    using fire_request_listeners [OF rq] vw(1) by simp
  finally show ?thesis
    using od vw by (simp add: reject_promise_def settle_def)
qed


theorem openDatabase_version_error_witness:
  "1 \<le> (1::int) \<and> (1::int) < 2 ^ 53 \<and>
   map_of (w_dbs (demo_world\<lparr>w_dbs := [(''shop'', \<lparr>db_version = 3, db_stores = shop_stores\<rparr>)]\<rparr>)) ''shop'' =
     Some \<lparr>db_version = 3, db_stores = shop_stores\<rparr> \<and>
   nat 1 < db_version \<lparr>db_version = 3, db_stores = shop_stores\<rparr> \<and>
   (let W = demo_world\<lparr>w_dbs := [(''shop'', \<lparr>db_version = 3, db_stores = shop_stores\<rparr>)]\<rparr>;
        (p, w1) = openDatabase ''shop'' 1 shop_migration None W;
        w2 = run_open (length (w_reqs W)) w1 in
    w_proms w2 ! p = Rejected (RejEvent (length (w_reqs W))) \<and> w_dbs w2 = w_dbs W \<and> w_conns w2 = w_conns W)"
proof -
  have h: "1 \<le> (1::int)" "(1::int) < 2 ^ 53"
    "map_of (w_dbs (demo_world\<lparr>w_dbs := [(''shop'', \<lparr>db_version = 3, db_stores = shop_stores\<rparr>)]\<rparr>)) ''shop'' =
       Some \<lparr>db_version = 3, db_stores = shop_stores\<rparr>"
    "nat 1 < db_version \<lparr>db_version = 3, db_stores = shop_stores\<rparr>"
    by code_simp+
  show ?thesis
    using openDatabase_version_error [OF h, of shop_migration None] h by (simp only: Let_def)
qed

end
