(* ===== verification/System.thy ===== *)
theory System
  imports Open_Database
begin

text \<open>
  The library in use: a caller interleaves calls of the wrapper methods with the
  host's steps (running a transaction's next request, processing an open request,
  firing \<open>blocked\<close>, starting and committing transactions). \<open>step\<close> is that
  transition relation on the world and \<open>reachable\<close> its closure from the empty
  world. The invariants proved here hold along every interleaving.
\<close>

section \<open>The system\<close>

text \<open>
  One step of the system: a call of a wrapper method that changes the world (the
  synchronous ones that throw change nothing and are left out), or a step of the host.
  The host commits a transaction once it has no pending request.
\<close>

inductive step :: "world \<Rightarrow> world \<Rightarrow> bool" where
  store_call: "step w (snd (store_call x c w))"
| index_call: "step w (snd (index_call x c w))"
| txn_abort: "txn_abort x w = Inr w' \<Longrightarrow> step w w'"
| txn_commit: "txn_commit x w = Inr w' \<Longrightarrow> step w w'"
| txn_add_listener: "step w (txn_addEventListener x e cb w)"
| txn_remove_listener: "step w (txn_removeEventListener x e cb w)"
| txn_dispatch: "step w (snd (txn_dispatchEvent x e c w))"
| db_transaction: "db_transaction x ns m w = Inr (y, w') \<Longrightarrow> step w w'"
| db_close: "step w (db_close x w)"
| open_database: "step w (snd (openDatabase n v m b w))"
| host_run_request: "step w (run_request t w)"
| host_start: "can_start w t \<Longrightarrow> step w (start_txn t w)"
| host_commit: "txn_at w t = Some tx \<Longrightarrow> tx_pending tx = [] \<Longrightarrow> tx_state tx \<in> {TxActive, TxCommitting} \<Longrightarrow>
                 step w (commit_txn t w)"
| host_open: "step w (run_open r w)"
| host_blocked: "step w (open_blocked r w)"

inductive reachable :: "world \<Rightarrow> bool" where
  init: "reachable empty_world"
| extend: "reachable w \<Longrightarrow> step w w' \<Longrightarrow> reachable w'"

text \<open>
  \<open>proms_mono w w'\<close>: from \<open>w\<close> to \<open>w'\<close> promises were only created or
  settled: every promise of \<open>w\<close> still exists, and a settled one keeps its state.
\<close>

definition proms_mono :: "world \<Rightarrow> world \<Rightarrow> bool" where
  "proms_mono w w' \<longleftrightarrow>
     length (w_proms w) \<le> length (w_proms w') \<and>
     (\<forall>p < length (w_proms w). w_proms w ! p \<noteq> Pending \<longrightarrow> w_proms w' ! p = w_proms w ! p)"

text \<open>Every object store of every database, and of every transaction's backup, has its records sorted by key.\<close>

definition stores_wf :: "(string \<times> object_store) list \<Rightarrow> bool" where
  "stores_wf ss \<longleftrightarrow> list_all (\<lambda>(n, os). store_wf os) ss"

definition world_wf :: "world \<Rightarrow> bool" where
  "world_wf w \<longleftrightarrow>
     list_all (\<lambda>(n, d). stores_wf (db_stores d)) (w_dbs w) \<and> list_all (\<lambda>tx. stores_wf (tx_backup tx)) (w_txns w)"

inductive_cases step_cases: "step w w'"

named_theorems proms_mono_intros \<open>operations that only create or settle promises\<close>

named_theorems wf_intros \<open>operations that keep every store of the world sorted\<close>

section \<open>Promises only ever settle\<close>

lemma proms_mono_refl [simp]: "proms_mono w w"
  by (simp add: proms_mono_def)

lemma proms_mono_trans [trans]: "proms_mono w1 w2 \<Longrightarrow> proms_mono w2 w3 \<Longrightarrow> proms_mono w1 w3"
  by (fastforce simp: proms_mono_def)

lemma proms_mono_frame: "w_proms w' = w_proms w \<Longrightarrow> proms_mono w w'"
  by (simp add: proms_mono_def)

lemma proms_mono_settle [proms_mono_intros]: "proms_mono w (settle p st w)"
  by (auto simp: proms_mono_def settle_def)

lemma proms_mono_new_promise [proms_mono_intros]: "proms_mono w (snd (new_promise w))"
  by (simp add: proms_mono_def new_promise_eq nth_append)

lemma proms_mono_run_handler [proms_mono_intros]: "proms_mono w (run_handler r o' n h w)"
proof (cases h)
  case (RunMigration m)
  then show ?thesis
    by (auto intro: proms_mono_frame simp: run_migration_def Let_def split: option.split sum.split)
qed (auto intro: proms_mono_frame simp: resolve_promise_def reject_promise_def proms_mono_settle
    split: option.split sum.split pvalue.split)

lemma proms_mono_fold:
  assumes "\<And>x w. proms_mono w (f x w)"
  shows "proms_mono w (fold f xs w)"
  by (induction xs arbitrary: w) (auto intro: proms_mono_trans assms)

lemma proms_mono_fire_request [proms_mono_intros]: "proms_mono w (fire_request e r o' n w)"
  by (auto simp: fire_request_def fold_event_filter intro: proms_mono_fold proms_mono_run_handler
      split: option.split)


lemma proms_mono_fire_txn [proms_mono_intros]: "proms_mono w (fst (fire_txn t e w))"
  by (simp add: proms_mono_frame)

lemma proms_mono_set_result [proms_mono_intros]: "proms_mono w (set_result r x w)"
  by (simp add: proms_mono_frame)

lemma proms_mono_fire_error [proms_mono_intros]: "proms_mono w (fst (fire_error t r e w))"
  unfolding fire_error_def
  by (rule proms_mono_trans [OF proms_mono_set_result proms_mono_trans [OF proms_mono_fire_request proms_mono_fire_txn]])

lemma proms_mono_abort_txn [proms_mono_intros]: "proms_mono w (abort_txn t w)"
proof -
  have a: "proms_mono w (fst (fire_txn t TxAbort (fold (\<lambda>r w. fst (fire_error t r AbortError w)) rs w2)))"
    if "w_proms w2 = w_proms w" for w2 rs
  proof -
    have "proms_mono w w2"
      using that by (simp add: proms_mono_frame)
    also have "proms_mono w2 (fold (\<lambda>r w. fst (fire_error t r AbortError w)) rs w2)"
      by (rule proms_mono_fold) (rule proms_mono_fire_error)
    also have "proms_mono \<dots> (fst (fire_txn t TxAbort \<dots>))"
      by (rule proms_mono_fire_txn)
    finally show ?thesis .
  qed
  show ?thesis
    by (auto simp: abort_txn_def Let_def intro!: a split: option.split)
qed

lemma proms_mono_run_request [proms_mono_intros]: "proms_mono w (run_request t w)"
proof -
  have ok: "proms_mono w (fire_request ReqSuccess r 0 None (set_result r x w2))"
    if "w_proms w2 = w_proms w" for r x w2
    using that proms_mono_fire_request [of "set_result r x w2" ReqSuccess r 0 None]
    by (simp add: proms_mono_def)
  have fe: "proms_mono w w2" if "fire_error t r e w1 = (w2, c)" "w_proms w1 = w_proms w" for r e w1 w2 c
    using proms_mono_fire_error [of w1 t r e] that by (simp add: proms_mono_def)
  have ab: "proms_mono w (abort_txn t w2)" if "fire_error t r e w1 = (w2, c)" "w_proms w1 = w_proms w"
    for r e w1 w2 c
    using proms_mono_trans [OF fe [OF that] proms_mono_abort_txn] .
  show ?thesis
    by (auto simp: run_request_def Let_def intro!: ok intro: fe ab proms_mono_frame dest: exec_native_frame
        split: option.split list.split sum.split prod.split)
qed

lemma proms_mono_commit_txn [proms_mono_intros]: "proms_mono w (commit_txn t w)"
  by (simp add: commit_txn_def proms_mono_frame)

lemma proms_mono_start_txn [proms_mono_intros]: "proms_mono w (start_txn t w)"
  by (simp add: start_txn_def proms_mono_frame)

lemma proms_mono_promisify:
  assumes "\<And>r w2. native (snd (new_promise w)) = Inr (r, w2) \<Longrightarrow> w_proms w2 = w_proms (snd (new_promise w))"
  shows "proms_mono w (snd (promisify h native w))"
proof (cases "native (snd (new_promise w))")
  case (Inl e)
  have "proms_mono w (snd (new_promise w))" by (rule proms_mono_new_promise)
  also have "proms_mono \<dots> (reject_promise (length (w_proms w)) (RejException e) \<dots>)"
    by (simp add: reject_promise_def proms_mono_settle)
  finally show ?thesis
    using Inl by (simp add: promisify_Inl)
next
  case (Inr rw)
  then obtain r w2 where rw: "native (snd (new_promise w)) = Inr (r, w2)" by (cases rw) auto
  have "proms_mono w (snd (new_promise w))" by (rule proms_mono_new_promise)
  then show ?thesis
    using assms [OF rw] rw by (simp add: promisify_Inr proms_mono_def)
qed

lemma place_request_proms: "(r, w') = place_request t op w \<Longrightarrow> w_proms w' = w_proms w"
  by (simp add: place_request_eq)

lemma proms_mono_store_call [proms_mono_intros]: "proms_mono w (snd (store_call x c w))"
  by (cases x rule: promised_store.exhaust, rename_tac h, case_tac h)
     (auto simp: store_call_promisify intro!: proms_mono_promisify dest!: store_native_placed place_request_proms)

lemma proms_mono_index_call [proms_mono_intros]: "proms_mono w (snd (index_call x c w))"
  by (cases x rule: promised_index.exhaust, rename_tac h, case_tac h)
     (auto simp: index_call_promisify intro!: proms_mono_promisify dest!: index_native_placed place_request_proms)

lemma proms_mono_txn_abort: "txn_abort x w = Inr w' \<Longrightarrow> proms_mono w w'"
  by (cases x) (auto simp: txn_abort_def native_abort_def proms_mono_abort_txn split: option.splits if_splits)

lemma proms_mono_txn_commit: "txn_commit x w = Inr w' \<Longrightarrow> proms_mono w w'"
  by (cases x) (auto simp: txn_commit_def native_commit_def intro: proms_mono_frame split: if_splits)

lemma proms_mono_txn_listeners [proms_mono_intros]:
  "proms_mono w (txn_addEventListener x e cb w)" "proms_mono w (txn_removeEventListener x e cb w)"
  "proms_mono w (snd (txn_dispatchEvent x e c w))"
proof -
  obtain t where x: "x = PromisedIndexedDbTransaction t" by (cases x)
  show "proms_mono w (txn_addEventListener x e cb w)"
    by (rule proms_mono_frame) (simp add: x txn_addEventListener_def native_addEventListener_def)
  show "proms_mono w (txn_removeEventListener x e cb w)"
    by (rule proms_mono_frame) (simp add: x txn_removeEventListener_def native_removeEventListener_def)
  show "proms_mono w (snd (txn_dispatchEvent x e c w))"
    by (rule proms_mono_frame)
       (simp add: x txn_dispatchEvent_def native_dispatchEvent_def fire_txn_eq split: option.split)
qed

lemma native_transaction_proms: "native_transaction c ns m w = Inr (t, w') \<Longrightarrow> w_proms w' = w_proms w"
  unfolding native_transaction_def Let_def alloc_def
  by (auto split: option.splits if_splits)

lemma proms_mono_db_transaction: "db_transaction x ns m w = Inr (y, w') \<Longrightarrow> proms_mono w w'"
proof -
  obtain c where x: "x = PromisedIndexedDb c" by (cases x)
  assume "db_transaction x ns m w = Inr (y, w')"
  then obtain t where "native_transaction c ns m w = Inr (t, w')"
    by (cases "native_transaction c ns m w") (auto simp: x db_transaction_def)
  then show ?thesis
    by (intro proms_mono_frame) (rule native_transaction_proms)
qed

lemma proms_mono_db_close [proms_mono_intros]: "proms_mono w (db_close x w)"
  by (cases x) (simp add: db_close_def native_close_def proms_mono_frame)

lemma native_open_proms: "native_open n v w = Inr (r, w') \<Longrightarrow> w_proms w' = w_proms w"
  by (auto simp: native_open_def alloc_def split: if_splits)

lemma proms_mono_openDatabase [proms_mono_intros]: "proms_mono w (snd (openDatabase n v m b w))"
proof (cases "native_open n v (snd (new_promise w))")
  case (Inl e)
  have "proms_mono w (snd (new_promise w))" by (rule proms_mono_new_promise)
  also have "proms_mono \<dots> (reject_promise (length (w_proms w)) (RejException e) \<dots>)"
    by (simp add: reject_promise_def proms_mono_settle)
  finally show ?thesis
    using Inl by (simp add: openDatabase_def new_promise_eq)
next
  case (Inr rw)
  then obtain r w2 where rw: "native_open n v (snd (new_promise w)) = Inr (r, w2)" by (cases rw) auto
  have "proms_mono w (snd (new_promise w))" by (rule proms_mono_new_promise)
  then show ?thesis
    using native_open_proms [OF rw] rw
    by (simp add: openDatabase_def new_promise_eq add_req_listener_def proms_mono_def Let_def split: option.split)
qed

lemma proms_mono_open_blocked [proms_mono_intros]: "proms_mono w (open_blocked r w)"
  by (simp add: open_blocked_def proms_mono_fire_request split: option.split prod.split)

lemma proms_mono_finish_upgrade [proms_mono_intros]: "proms_mono w (finish_upgrade r c t n old w)"
proof -
  have "proms_mono w (fire_request e r 0 None w')" if "w_proms w' = w_proms w" for e w'
    using that proms_mono_fire_request [of w' e r 0 None] by (simp add: proms_mono_def)
  then show ?thesis
    by (simp add: finish_upgrade_def split: option.split)
qed

lemma open_connection_proms: "open_connection n w = (c, w') \<Longrightarrow> w_proms w' = w_proms w"
  by (auto simp: open_connection_def Let_def alloc_def split: if_splits)

lemma begin_upgrade_proms: "begin_upgrade r c n v w = (t, w') \<Longrightarrow> w_proms w' = w_proms w"
  by (auto simp: begin_upgrade_def Let_def alloc_def)

lemma proms_mono_run_open [proms_mono_intros]: "proms_mono w (run_open r w)"
proof -
  have fr: "proms_mono w (fire_request e r o' n w')" if "w_proms w' = w_proms w" for e o' n w'
    using that proms_mono_fire_request [of w' e r o' n] by (simp add: proms_mono_def)
  have up: "proms_mono w (finish_upgrade r c t name old (fire_request ReqUpgradeNeeded r old n w2))"
    if "w_proms w2 = w_proms w" for c t name old n w2
    using proms_mono_trans [OF fr [OF that] proms_mono_finish_upgrade] .
  show ?thesis
    unfolding run_open_def
    by (auto simp: Let_def intro!: fr up dest!: open_connection_proms begin_upgrade_proms
        split: option.split prod.split)
qed

lemma step_proms_mono: "step w w' \<Longrightarrow> proms_mono w w'"
  by (induction rule: step.induct)
     (auto intro: proms_mono_intros proms_mono_txn_abort proms_mono_txn_commit proms_mono_db_transaction)



section \<open>Every store stays sorted\<close>

lemma stores_wf_update [intro]: "store_wf os \<Longrightarrow> stores_wf ss \<Longrightarrow> stores_wf (AList.update n os ss)"
  by (simp add: stores_wf_def list_all_update)

lemma stores_wf_map_of: "stores_wf ss \<Longrightarrow> map_of ss n = Some os \<Longrightarrow> store_wf os"
  by (auto simp: stores_wf_def list_all_iff dest: map_of_SomeD)

lemma stores_wf_exec_on_stores:
  assumes "stores_wf ss" "exec_on_stores op ss = Inr (v, ss')"
  shows "stores_wf ss'"
  using assms
  by (auto simp: exec_on_stores_def stores_wf_map_of store_record_wf
      split: native_op.splits option.splits sum.splits prod.splits)

lemma store_wf_empty [simp]: "store_wf (empty_store kp auto)"
  by (simp add: store_wf_def empty_store_def records_wf_def)

lemma stores_wf_schema_op: "stores_wf ss \<Longrightarrow> apply_schema_op op ss = Inr ss' \<Longrightarrow> stores_wf ss'"
proof (cases op)
  case (CreateIndex s n kp u m)
  assume wf: "stores_wf ss" and ap: "apply_schema_op op ss = Inr ss'"
  then obtain os where os: "map_of ss s = Some os"
    using CreateIndex by (auto split: option.splits)
  then have "store_wf os" using wf by (rule stores_wf_map_of [rotated])
  then show ?thesis
    using ap CreateIndex os wf by (auto simp: store_wf_def Let_def split: if_splits)
qed (auto simp: stores_wf_def list_all_delete intro!: list_all_update split: if_splits)

lemma stores_wf_schema_ops: "stores_wf ss \<Longrightarrow> apply_schema_ops ops ss = Inr ss' \<Longrightarrow> stores_wf ss'"
  by (induction ops arbitrary: ss) (auto dest: stores_wf_schema_op split: sum.splits)

lemma world_wf_frame: "world_wf w \<Longrightarrow> w_dbs w' = w_dbs w \<Longrightarrow> w_txns w' = w_txns w \<Longrightarrow> world_wf w'"
  by (simp add: world_wf_def)

lemma world_wf_db: "world_wf w \<Longrightarrow> map_of (w_dbs w) n = Some d \<Longrightarrow> stores_wf (db_stores d)"
  by (auto simp: world_wf_def list_all_iff dest!: map_of_SomeD)

lemma world_wf_txn_stores: "world_wf w \<Longrightarrow> stores_wf (txn_stores w t)"
  by (auto simp: txn_stores_def stores_wf_def dest: world_wf_db [unfolded stores_wf_def] split: option.split)

lemma world_wf_map_db:
  assumes wf: "world_wf w" and f: "\<And>d. stores_wf (db_stores d) \<Longrightarrow> stores_wf (db_stores (f d))"
  shows "world_wf (map_db n f w)"
proof (cases "map_of (w_dbs w) n")
  case (Some d)
  then have "stores_wf (db_stores (f d))" using f world_wf_db [OF wf] by blast
  then show ?thesis
    using Some wf by (simp add: map_db_def world_wf_def list_all_update)
qed (simp add: map_db_def wf)

lemma world_wf_set_txn_stores [wf_intros]:
  "world_wf w \<Longrightarrow> stores_wf ss \<Longrightarrow> world_wf (set_txn_stores t ss w)"
  by (auto simp: set_txn_stores_def intro!: world_wf_map_db split: option.split)

lemma world_wf_map_txn:
  assumes "world_wf w" "\<And>tx. stores_wf (tx_backup tx) \<Longrightarrow> stores_wf (tx_backup (f tx))"
  shows "world_wf (map_txn t f w)"
  using assms by (simp add: world_wf_def map_txn_def list_all_upd_at)

lemma world_wf_fold:
  assumes "\<And>x w. world_wf w \<Longrightarrow> world_wf (f x w)" "world_wf w"
  shows "world_wf (fold f xs w)"
  using assms(2) by (induction xs arbitrary: w) (auto intro: assms(1))

lemma world_wf_settle [wf_intros]: "world_wf w \<Longrightarrow> world_wf (settle p st w)"
  by (erule world_wf_frame) simp_all

lemma world_wf_run_handler [wf_intros]: "world_wf w \<Longrightarrow> world_wf (run_handler r o' n h w)"
proof (cases h)
  case (RunMigration m)
  assume wf: "world_wf w"
  let ?w1 = "w\<lparr>w_log := w_log w @ [CalledMigration o' n]\<rparr>"
  have "world_wf ?w1" using wf by (rule world_wf_frame) simp_all
  moreover have "stores_wf (txn_stores ?w1 t)" for t
    using wf by (simp add: world_wf_txn_stores)
  ultimately show ?thesis
    using RunMigration
    by (auto simp: run_migration_def Let_def intro: world_wf_set_txn_stores world_wf_map_txn
        stores_wf_schema_ops split: option.split sum.split)
qed (auto simp: resolve_promise_def reject_promise_def intro: world_wf_settle world_wf_frame
    split: option.split sum.split pvalue.split)

lemma world_wf_fire_request [wf_intros]: "world_wf w \<Longrightarrow> world_wf (fire_request e r o' n w)"
  by (auto simp: fire_request_def fold_event_filter intro: world_wf_fold world_wf_run_handler
      split: option.split)

lemma world_wf_set_result [wf_intros]: "world_wf w \<Longrightarrow> world_wf (set_result r x w)"
  by (erule world_wf_frame) simp_all

lemma world_wf_fire_txn [wf_intros]: "world_wf w \<Longrightarrow> world_wf (fst (fire_txn t e w))"
  by (erule world_wf_frame) simp_all

lemma world_wf_fire_error [wf_intros]: "world_wf w \<Longrightarrow> world_wf (fst (fire_error t r e w))"
  by (simp add: fire_error_def wf_intros)

lemma world_wf_backup: "world_wf w \<Longrightarrow> txn_at w t = Some tx \<Longrightarrow> stores_wf (tx_backup tx)"
  by (auto simp: world_wf_def txn_at_def list_all_iff split: if_splits)

lemma stores_wf_filter: "stores_wf ss \<Longrightarrow> stores_wf (filter P ss)"
  by (simp add: stores_wf_def list_all_iff)

lemma world_wf_abort_txn [wf_intros]: "world_wf w \<Longrightarrow> world_wf (abort_txn t w)"
proof (cases "txn_at w t")
  case (Some tx)
  assume wf: "world_wf w"
  let ?w1 = "map_txn t (\<lambda>tx. tx\<lparr>tx_state := TxAborted, tx_pending := []\<rparr>) w"
  have w1: "world_wf ?w1" using wf by (rule world_wf_map_txn) simp
  have bk: "stores_wf (tx_backup tx)" using world_wf_backup [OF wf Some] .
  have "stores_wf (fold (\<lambda>(n, os) ss. AList.update n os ss) (tx_backup tx) (txn_stores ?w1 t))"
    using bk world_wf_txn_stores [OF w1, of t] by (simp add: stores_wf_def list_all_fold_update)
  then have w2: "world_wf (if tx_started tx \<and> tx_mode tx \<noteq> ReadOnly
                  then set_txn_stores t (if tx_mode tx = VersionChange then tx_backup tx
                                         else fold (\<lambda>(n, os) ss. AList.update n os ss) (tx_backup tx)
                                                (txn_stores ?w1 t)) ?w1
                  else ?w1)"
    using w1 bk by (simp add: world_wf_set_txn_stores)
  show ?thesis
    using Some w2
    by (simp add: abort_txn_def Let_def world_wf_fire_txn world_wf_fold world_wf_fire_error)
qed (simp add: abort_txn_def)

lemma world_wf_run_request [wf_intros]: "world_wf w \<Longrightarrow> world_wf (run_request t w)"
proof -
  assume wf: "world_wf w"
  have w1: "world_wf (map_txn t f w)" if "\<And>tx. tx_backup (f tx) = tx_backup tx" for f
    using wf by (rule world_wf_map_txn) (simp add: that)
  have ex: "world_wf w2" if "exec_native t op w1 = Inr (v, w2)" "world_wf w1" for op w1 v w2
  proof (cases "exec_on_stores op (txn_stores w1 t)")
    case (Inr vs)
    then obtain v' ss where vs: "exec_on_stores op (txn_stores w1 t) = Inr (v', ss)" by (cases vs) auto
    then have "stores_wf ss" by (rule stores_wf_exec_on_stores [OF world_wf_txn_stores [OF that(2)]])
    then show ?thesis
      using that vs by (auto simp: exec_native_def intro: world_wf_set_txn_stores)
  qed (use that in \<open>simp add: exec_native_def\<close>)
  have fe: "world_wf w2" if "fire_error t r e w1 = (w2, c)" "world_wf w1" for r e w1 w2 c
    using world_wf_fire_error [OF that(2), of t r e] that(1) by simp
  show ?thesis
    using wf by (auto simp: run_request_def Let_def intro!: w1 wf_intros dest: ex fe
        split: option.split list.split sum.split prod.split)
qed

lemma world_wf_commit_txn [wf_intros]: "world_wf w \<Longrightarrow> world_wf (commit_txn t w)"
  by (simp add: commit_txn_def world_wf_fire_txn world_wf_map_txn)

lemma world_wf_start_txn [wf_intros]: "world_wf w \<Longrightarrow> world_wf (start_txn t w)"
  unfolding start_txn_def
  by (rule world_wf_map_txn) (simp_all add: stores_wf_filter world_wf_txn_stores)

lemma world_wf_place_request: "world_wf w \<Longrightarrow> (r, w') = place_request t op w \<Longrightarrow> world_wf w'"
proof -
  assume wf: "world_wf w" and pl: "(r, w') = place_request t op w"
  have "world_wf (w\<lparr>w_reqs := rs\<rparr>)" for rs using wf by (rule world_wf_frame) simp_all
  then show ?thesis
    using pl by (auto simp: place_request_eq intro!: world_wf_map_txn)
qed

lemma world_wf_new_promise: "world_wf w \<Longrightarrow> world_wf (snd (new_promise w))"
  by (erule world_wf_frame) (simp_all add: new_promise_eq)

lemma world_wf_add_req_listener: "world_wf w \<Longrightarrow> world_wf (add_req_listener r e h w)"
  by (erule world_wf_frame) simp_all

lemma world_wf_promisify:
  assumes wf: "world_wf w"
    and nat: "\<And>r w2. native (snd (new_promise w)) = Inr (r, w2) \<Longrightarrow> world_wf w2"
  shows "world_wf (snd (promisify h native w))"
proof (cases "native (snd (new_promise w))")
  case (Inl e)
  then show ?thesis
    using world_wf_new_promise [OF wf] by (simp add: promisify_Inl reject_promise_def world_wf_settle)
next
  case (Inr rw)
  then obtain r w2 where rw: "native (snd (new_promise w)) = Inr (r, w2)" by (cases rw) auto
  then show ?thesis
    using nat [OF rw] by (simp add: promisify_Inr world_wf_add_req_listener)
qed

lemma world_wf_store_call [wf_intros]: "world_wf w \<Longrightarrow> world_wf (snd (store_call x c w))"
proof -
  assume wf: "world_wf w"
  obtain t s where x: "x = PromisedIndexedDbObjectStore (StoreHandle t s)"
    by (metis promised_store.exhaust store_handle.exhaust)
  show ?thesis
    unfolding x store_call_promisify
    by (rule world_wf_promisify [OF wf])
       (auto dest!: store_native_placed intro: world_wf_place_request world_wf_new_promise [OF wf])
qed

lemma world_wf_index_call [wf_intros]: "world_wf w \<Longrightarrow> world_wf (snd (index_call x c w))"
proof -
  assume wf: "world_wf w"
  obtain t s i where x: "x = PromisedIndexedDbIndex (IndexHandle t s i)"
    by (metis promised_index.exhaust index_handle.exhaust)
  show ?thesis
    unfolding x index_call_promisify
    by (rule world_wf_promisify [OF wf])
       (auto dest!: index_native_placed intro: world_wf_place_request world_wf_new_promise [OF wf])
qed

lemma world_wf_txn_abort: "world_wf w \<Longrightarrow> txn_abort x w = Inr w' \<Longrightarrow> world_wf w'"
proof -
  obtain t where x: "x = PromisedIndexedDbTransaction t" by (cases x)
  assume "world_wf w" "txn_abort x w = Inr w'"
  then show ?thesis
    by (auto simp: x txn_abort_def native_abort_def intro: world_wf_abort_txn split: option.splits if_splits)
qed

lemma world_wf_txn_commit: "world_wf w \<Longrightarrow> txn_commit x w = Inr w' \<Longrightarrow> world_wf w'"
proof -
  obtain t where x: "x = PromisedIndexedDbTransaction t" by (cases x)
  assume "world_wf w" "txn_commit x w = Inr w'"
  then show ?thesis
    by (auto simp: x txn_commit_def native_commit_def intro!: world_wf_map_txn split: if_splits)
qed

lemma world_wf_txn_listeners [wf_intros]:
  "world_wf w \<Longrightarrow> world_wf (txn_addEventListener x e cb w)"
  "world_wf w \<Longrightarrow> world_wf (txn_removeEventListener x e cb w)"
  "world_wf w \<Longrightarrow> world_wf (snd (txn_dispatchEvent x e c w))"
proof -
  obtain t where x: "x = PromisedIndexedDbTransaction t" by (cases x)
  assume wf: "world_wf w"
  show "world_wf (txn_addEventListener x e cb w)"
    unfolding x txn_addEventListener_def native_addEventListener_def
    by (simp, rule world_wf_map_txn [OF wf]) simp
  show "world_wf (txn_removeEventListener x e cb w)"
    unfolding x txn_removeEventListener_def native_removeEventListener_def
    by (simp, rule world_wf_map_txn [OF wf]) simp
  show "world_wf (snd (txn_dispatchEvent x e c w))"
    using world_wf_fire_txn [OF wf, of t e]
    by (simp add: x txn_dispatchEvent_def native_dispatchEvent_def split: prod.split) (metis fst_conv)
qed

lemma world_wf_db_transaction: "world_wf w \<Longrightarrow> db_transaction x ns m w = Inr (y, w') \<Longrightarrow> world_wf w'"
proof -
  obtain c where x: "x = PromisedIndexedDb c" by (cases x)
  assume wf: "world_wf w" and dt: "db_transaction x ns m w = Inr (y, w')"
  then obtain t where nt: "native_transaction c ns m w = Inr (t, w')"
    by (cases "native_transaction c ns m w") (auto simp: x db_transaction_def)
  have "world_wf (w\<lparr>w_txns := w_txns w @ [new_txn c ns m]\<rparr>)"
    using wf by (simp add: world_wf_def new_txn_def stores_wf_def)
  then show ?thesis
    using nt by (auto simp: native_transaction_def alloc_def Let_def split: option.splits if_splits)
qed

lemma world_wf_db_close [wf_intros]: "world_wf w \<Longrightarrow> world_wf (db_close x w)"
  by (cases x) (auto simp: db_close_def native_close_def elim!: world_wf_frame)

lemma world_wf_native_open: "world_wf w \<Longrightarrow> native_open n v w = Inr (r, w') \<Longrightarrow> world_wf w'"
  by (auto simp: native_open_def alloc_def elim!: world_wf_frame split: if_splits)

lemma world_wf_openDatabase [wf_intros]: "world_wf w \<Longrightarrow> world_wf (snd (openDatabase n v m b w))"
proof (cases "native_open n v (snd (new_promise w))")
  case (Inl e)
  assume wf: "world_wf w"
  then show ?thesis
    using Inl world_wf_new_promise [OF wf]
    by (simp add: openDatabase_def new_promise_eq reject_promise_def world_wf_settle)
next
  case (Inr rw)
  assume wf: "world_wf w"
  obtain r w2 where rw: "native_open n v (snd (new_promise w)) = Inr (r, w2)" using Inr by (cases rw) auto
  have "world_wf w2" by (rule world_wf_native_open [OF world_wf_new_promise [OF wf] rw])
  then show ?thesis
    using rw by (simp add: openDatabase_def new_promise_eq Let_def world_wf_add_req_listener split: option.split)
qed

lemma world_wf_open_blocked [wf_intros]: "world_wf w \<Longrightarrow> world_wf (open_blocked r w)"
  by (simp add: open_blocked_def world_wf_fire_request split: option.split prod.split)

lemma world_wf_open_connection: "world_wf w \<Longrightarrow> open_connection n w = (c, w') \<Longrightarrow> world_wf w'"
  by (auto simp: open_connection_def Let_def alloc_def world_wf_def stores_wf_def split: if_splits)

lemma world_wf_begin_upgrade: "world_wf w \<Longrightarrow> begin_upgrade r c n v w = (t, w') \<Longrightarrow> world_wf w'"
proof -
  assume wf: "world_wf w" and bu: "begin_upgrade r c n v w = (t, w')"
  let ?ss = "case map_of (w_dbs w) n of None \<Rightarrow> [] | Some d \<Rightarrow> db_stores d"
  have "stores_wf ?ss"
    using world_wf_db [OF wf] by (auto simp: stores_wf_def split: option.split)
  then have "world_wf (w\<lparr>w_txns := w_txns w @ [upgrade_txn c ?ss]\<rparr>)"
    using wf by (simp add: world_wf_def upgrade_txn_def)
  then have "world_wf (map_req r f (w\<lparr>w_txns := w_txns w @ [upgrade_txn c ?ss]\<rparr>))" for f
    by (rule world_wf_frame) simp_all
  then show ?thesis
    using bu by (auto simp: begin_upgrade_def Let_def alloc_def intro!: world_wf_map_db)
qed

lemma world_wf_finish_upgrade [wf_intros]: "world_wf w \<Longrightarrow> world_wf (finish_upgrade r c t n old w)"
proof (cases "txn_at w t")
  case (Some tx)
  assume wf: "world_wf w"
  have bk: "stores_wf (tx_backup tx)" by (rule world_wf_backup [OF wf Some])
  have "world_wf (w\<lparr>w_conns := cs\<rparr>)" for cs using wf by (rule world_wf_frame) simp_all
  then have a: "world_wf (map_db n (\<lambda>d. d\<lparr>db_version := old, db_stores := tx_backup tx\<rparr>) (w\<lparr>w_conns := cs\<rparr>))"
    for cs by (rule world_wf_map_db) (simp add: bk)
  have b: "world_wf (map_txn t (\<lambda>tx. tx\<lparr>tx_state := TxCommitted\<rparr>) w)"
    using wf by (rule world_wf_map_txn) simp
  have "world_wf (map_req r f X)" if "world_wf X" for f X using that by (rule world_wf_frame) simp_all
  then show ?thesis
    using Some a b by (simp add: finish_upgrade_def world_wf_fire_request)
qed (simp add: finish_upgrade_def)

lemma world_wf_run_open [wf_intros]: "world_wf w \<Longrightarrow> world_wf (run_open r w)"
proof -
  assume wf: "world_wf w"
  have up: "world_wf (finish_upgrade r c t n old (fire_request ReqUpgradeNeeded r old nv w2))"
    if "open_connection n w = (c, w1)" "begin_upgrade r c n v w1 = (t, w2)" for n c w1 v t w2 old nv
    using world_wf_begin_upgrade [OF world_wf_open_connection [OF wf that(1)] that(2)]
    by (intro world_wf_finish_upgrade world_wf_fire_request)
  have ok: "world_wf (fire_request ReqSuccess r 0 None (set_result r x w1))"
    if "open_connection n w = (c, w1)" for n c w1 x
    using world_wf_open_connection [OF wf that] by (intro world_wf_fire_request world_wf_set_result)
  show ?thesis
    using wf unfolding run_open_def
    by (auto simp: Let_def intro: up ok wf_intros split: option.split prod.split)
qed

lemma step_world_wf: "step w w' \<Longrightarrow> world_wf w \<Longrightarrow> world_wf w'"
  by (induction rule: step.induct)
     (auto intro: wf_intros world_wf_txn_abort world_wf_txn_commit world_wf_db_transaction)



end
