(* ===== verification/Host_Queue.thy ===== *)
theory Host_Queue
  imports System
begin

text \<open>
  The host's processing of one transaction's request list, seen from a single
  promise of the request-to-promise idiom: which parts of the world the processing
  leaves alone (the listeners of every request, the request lists of the other
  transactions), and how running the first pending request either settles the
  promise of a request further down the list or keeps that request waiting, with its
  listeners, on a shorter list.
\<close>

section \<open>Views of the world\<close>

text \<open>The requests still waiting on transaction \<open>t\<close>, in order (none for an unknown address).\<close>

definition pending_of :: "world \<Rightarrow> addr \<Rightarrow> addr list" where
  "pending_of w t = (case txn_at w t of None \<Rightarrow> [] | Some tx \<Rightarrow> tx_pending tx)"

definition pendings :: "world \<Rightarrow> addr list list" where
  "pendings w = map tx_pending (w_txns w)"

definition listeners_of :: "world \<Rightarrow> (req_event \<times> handler) list list" where
  "listeners_of w = map rq_listeners (w_reqs w)"

text \<open>A promise is settled once it exists and is no longer pending.\<close>

definition settled :: "world \<Rightarrow> addr \<Rightarrow> bool" where
  "settled w p \<longleftrightarrow> p < length (w_proms w) \<and> w_proms w ! p \<noteq> Pending"

text \<open>The two listeners the idiom registers on a request \<open>r\<close> for its promise \<open>p\<close>.\<close>

definition idiom_listeners :: "bool \<Rightarrow> addr \<Rightarrow> addr \<Rightarrow> (req_event \<times> handler) list" where
  "idiom_listeners u p r = [(ReqSuccess, idiom_success u p r), (ReqError, RejectEvent p)]"

text \<open>
  Recognising them by pattern, since handlers hold the caller's callbacks and have
  no executable equality.
\<close>

fun is_idiom :: "addr \<Rightarrow> addr \<Rightarrow> (req_event \<times> handler) list \<Rightarrow> bool" where
  "is_idiom p r [(ReqSuccess, ResolveResult p' r'), (ReqError, RejectEvent p'')] = (p' = p \<and> r' = r \<and> p'' = p)"
| "is_idiom p r [(ReqSuccess, ResolveUndefined p'), (ReqError, RejectEvent p'')] = (p' = p \<and> p'' = p)"
| "is_idiom p r ls = False"

definition idiom_req :: "world \<Rightarrow> addr \<Rightarrow> addr \<Rightarrow> bool" where
  "idiom_req w r p \<longleftrightarrow>
     p < length (w_proms w) \<and> r < length (w_reqs w) \<and> is_idiom p r (rq_listeners (w_reqs w ! r))"

named_theorems queue_frames \<open>operations that keep the listeners and the request lists\<close>

section \<open>Frames\<close>

lemma is_idiom_iff: "is_idiom p r ls \<longleftrightarrow> ls \<in> {idiom_listeners True p r, idiom_listeners False p r}"
  by (induction p r ls rule: is_idiom.induct) (auto simp: idiom_listeners_def idiom_success_def)

lemma idiom_req_alt:
  "idiom_req w r p \<longleftrightarrow>
     p < length (w_proms w) \<and> r < length (w_reqs w) \<and>
     rq_listeners (w_reqs w ! r) \<in> {idiom_listeners True p r, idiom_listeners False p r}"
  by (simp add: idiom_req_def is_idiom_iff)

lemma pending_of_frame: "pendings w' = pendings w \<Longrightarrow> pending_of w' t = pending_of w t"
  by (simp add: pending_of_def pendings_def txn_at_def) (metis length_map nth_map)

lemma idiom_req_frame:
  assumes "listeners_of w' = listeners_of w" "proms_mono w w'" "idiom_req w r p"
  shows "idiom_req w' r p"
proof -
  have "length (w_reqs w') = length (w_reqs w)"
    using arg_cong [OF assms(1), of length] by (simp add: listeners_of_def)
  moreover have "r < length (w_reqs w) \<Longrightarrow> rq_listeners (w_reqs w' ! r) = rq_listeners (w_reqs w ! r)"
    using assms(1) calculation by (metis listeners_of_def nth_map)
  ultimately show ?thesis
    using assms(2,3) by (auto simp: idiom_req_alt proms_mono_def)
qed

lemma settled_mono: "proms_mono w w' \<Longrightarrow> settled w p \<Longrightarrow> settled w' p"
  by (auto simp: proms_mono_def settled_def)

lemma settled_settle: "p < length (w_proms w) \<Longrightarrow> st \<noteq> Pending \<Longrightarrow> settled (settle p st w) p"
  by (cases "w_proms w ! p = Pending") (simp_all add: settled_def settle_settled)

lemma run_handler_queue [queue_frames]:
  "w_reqs (run_handler r o' n h w) = w_reqs w" "pendings (run_handler r o' n h w) = pendings w"
proof -
  have mt: "pendings (map_txn t (\<lambda>tx. tx\<lparr>tx_state := s\<rparr>) w1) = pendings w1" for t s w1
    by (simp add: pendings_def map_txn_def map_upd_at_keep)
  show "w_reqs (run_handler r o' n h w) = w_reqs w" "pendings (run_handler r o' n h w) = pendings w"
    by (cases h; auto simp: resolve_promise_def reject_promise_def run_migration_def Let_def mt
        split: option.split sum.split pvalue.split; simp add: pendings_def)+
qed

lemma fire_request_queue [queue_frames]:
  "w_reqs (fire_request e r o' n w) = w_reqs w" "pendings (fire_request e r o' n w) = pendings w"
  "listeners_of (fire_request e r o' n w) = listeners_of w"
  by (simp_all add: fire_request_def listeners_of_def fold_keeps run_handler_queue split: option.split prod.split)

lemma set_result_queue [queue_frames]:
  "listeners_of (set_result r x w) = listeners_of w" "pendings (set_result r x w) = pendings w"
  by (simp_all add: listeners_of_def pendings_def set_result_def map_req_def map_upd_at_keep)

lemma fire_txn_queue [queue_frames]:
  "listeners_of (fst (fire_txn t e w)) = listeners_of w" "pendings (fst (fire_txn t e w)) = pendings w"
  by (simp_all add: listeners_of_def pendings_def)

lemma fire_error_queue [queue_frames]:
  "listeners_of (fst (fire_error t r e w)) = listeners_of w" "pendings (fst (fire_error t r e w)) = pendings w"
  by (simp_all add: fire_error_def queue_frames)

section \<open>Firing at a request of the idiom settles its promise\<close>

lemma idiom_req_at:
  assumes "idiom_req w r p"
  obtains u where "req_at w r = Some (w_reqs w ! r)" "rq_listeners (w_reqs w ! r) = idiom_listeners u p r"
  using assms by (auto simp: idiom_req_alt req_at_def)

lemma fire_idiom_error_settles:
  assumes "idiom_req w r p"
  shows "settled (fire_request ReqError r o' n w) p"
proof -
  obtain u where "req_at w r = Some (w_reqs w ! r)" "rq_listeners (w_reqs w ! r) = idiom_listeners u p r"
    using assms by (rule idiom_req_at)
  then have "fire_request ReqError r o' n w = run_handler r o' n (RejectEvent p) w"
    by (simp add: fire_request_listeners idiom_listeners_def)
  then show ?thesis
    using assms by (simp add: reject_promise_def settled_settle idiom_req_alt)
qed

lemma fire_idiom_success_settles:
  assumes "idiom_req w r p" "req_result w r = Some (Inr v)"
  shows "settled (fire_request ReqSuccess r o' n w) p"
proof -
  obtain u where "req_at w r = Some (w_reqs w ! r)" "rq_listeners (w_reqs w ! r) = idiom_listeners u p r"
    using assms(1) by (rule idiom_req_at)
  then have "fire_request ReqSuccess r o' n w = run_handler r o' n (idiom_success u p r) w"
    by (simp add: fire_request_listeners idiom_listeners_def)
  then show ?thesis
    using assms by (cases u) (simp_all add: idiom_success_def resolve_promise_def settled_settle idiom_req_alt)
qed

lemma fire_error_settles:
  assumes "idiom_req w r p"
  shows "settled (fst (fire_error t r e w)) p"
proof -
  have "idiom_req (set_result r (Inl e) w) r p"
    using assms by (rule idiom_req_frame [rotated 2]) (simp_all add: set_result_queue proms_mono_set_result)
  then show ?thesis
    by (simp add: fire_error_def settled_def fire_idiom_error_settles [unfolded settled_def])
qed

section \<open>Aborting settles every waiting promise of the idiom\<close>

lemma pending_of_pendings: "pending_of w t = (if t < length (pendings w) then pendings w ! t else [])"
  by (simp add: pending_of_def pendings_def txn_at_def)

lemma map_txn_queue [queue_frames]: "listeners_of (map_txn t f w) = listeners_of w"
  by (simp add: listeners_of_def map_txn_def)

lemma set_txn_stores_queue [queue_frames]:
  "listeners_of (set_txn_stores t ss w) = listeners_of w" "pendings (set_txn_stores t ss w) = pendings w"
  by (simp_all add: listeners_of_def pendings_def)

lemma pending_of_map_txn [simp]:
  "pending_of (map_txn t (\<lambda>tx. tx\<lparr>tx_pending := rs, tx_state := st\<rparr>) w) t = (if txn_at w t = None then [] else rs)"
  "pending_of (map_txn t (\<lambda>tx. tx\<lparr>tx_pending := rs\<rparr>) w) t = (if txn_at w t = None then [] else rs)"
  by (auto simp: pending_of_def txn_at_map_txn)

lemma fold_fire_error_queue [queue_frames]:
  "listeners_of (fold (\<lambda>r w. fst (fire_error t r e w)) rs w) = listeners_of w"
  "pendings (fold (\<lambda>r w. fst (fire_error t r e w)) rs w) = pendings w"
  by (simp_all add: fold_keeps fire_error_queue)

lemma proms_mono_fold_fire_error: "proms_mono w (fold (\<lambda>r w. fst (fire_error t r e w)) rs w)"
  by (rule proms_mono_fold) (rule proms_mono_fire_error)

lemma fold_fire_error_settles:
  "r \<in> set rs \<Longrightarrow> idiom_req w r p \<Longrightarrow> settled (fold (\<lambda>r w. fst (fire_error t r e w)) rs w) p"
proof (induction rs arbitrary: w)
  case (Cons r' rs)
  show ?case
  proof (cases "r' = r")
    case True
    then show ?thesis
      using fire_error_settles [OF Cons.prems(2)] by (simp add: settled_mono [OF proms_mono_fold_fire_error])
  next
    case False
    have "idiom_req (fst (fire_error t r' e w)) r p"
      using Cons.prems(2) by (rule idiom_req_frame [rotated 2]) (simp_all add: fire_error_queue proms_mono_fire_error)
    with False Cons show ?thesis by simp
  qed
qed simp

text \<open>Aborting: the transaction's list ends empty, and then every request it held has had \<open>error\<close> fired.\<close>

lemma abort_txn_shape:
  assumes "txn_at w t = Some tx"
  obtains W where "abort_txn t w = fst (fire_txn t TxAbort (fold (\<lambda>r w. fst (fire_error t r AbortError w)) (tx_pending tx) W))"
    "listeners_of W = listeners_of w" "w_proms W = w_proms w" "pending_of W t = []"
    "\<And>t'. t' \<noteq> t \<Longrightarrow> pending_of W t' = pending_of w t'"
proof -
  define W1 where "W1 = map_txn t (\<lambda>tx. tx\<lparr>tx_state := TxAborted, tx_pending := []\<rparr>) w"
  define W where "W = (if tx_started tx \<and> tx_mode tx \<noteq> ReadOnly
                     then set_txn_stores t (if tx_mode tx = VersionChange then tx_backup tx
                                            else fold (\<lambda>(n, os) ss. AList.update n os ss)
                                                   (tx_backup tx) (txn_stores W1 t)) W1
                     else W1)"
  have "pending_of W1 t = []"
    using assms by (simp add: W1_def pending_of_def txn_at_map_txn)
  moreover have "pending_of W t = pending_of W1 t"
    by (rule pending_of_frame) (simp add: W_def set_txn_stores_queue)
  ultimately have "pending_of W t = []" by simp
  moreover have "pending_of W t' = pending_of w t'" if "t' \<noteq> t" for t'
  proof -
    have "pending_of W t' = pending_of W1 t'"
      by (rule pending_of_frame) (simp add: W_def set_txn_stores_queue)
    then show ?thesis
      using that by (simp add: W1_def pending_of_def txn_at_map_txn)
  qed
  moreover have "listeners_of W1 = listeners_of w" "w_proms W1 = w_proms w"
    by (simp_all add: W1_def map_txn_queue)
  then have "listeners_of W = listeners_of w" "w_proms W = w_proms w"
    by (simp_all add: W_def set_txn_stores_queue)
  moreover have "abort_txn t w = fst (fire_txn t TxAbort (fold (\<lambda>r w. fst (fire_error t r AbortError w)) (tx_pending tx) W))"
    using assms unfolding abort_txn_def W_def W1_def Let_def by (simp only: option.case)
  ultimately show ?thesis using that by blast
qed

lemma abort_txn_queue:
  "listeners_of (abort_txn t w) = listeners_of w" "pending_of (abort_txn t w) t = []"
proof -
  have "listeners_of (abort_txn t w) = listeners_of w \<and> pending_of (abort_txn t w) t = []"
  proof (cases "txn_at w t")
    case None
    then show ?thesis by (simp add: abort_txn_def pending_of_def)
  next
    case (Some tx)
    then obtain W where "abort_txn t w = fst (fire_txn t TxAbort (fold (\<lambda>r w. fst (fire_error t r AbortError w)) (tx_pending tx) W))"
      "listeners_of W = listeners_of w" "pending_of W t = []"
      by (rule abort_txn_shape)
    then show ?thesis
      by (simp add: queue_frames pending_of_pendings) (metis pending_of_pendings)
  qed
  then show "listeners_of (abort_txn t w) = listeners_of w" "pending_of (abort_txn t w) t = []" by simp_all
qed

lemma abort_txn_settles:
  assumes "r \<in> set (pending_of w t)" "idiom_req w r p"
  shows "settled (abort_txn t w) p"
proof -
  obtain tx where tx: "txn_at w t = Some tx" and r: "r \<in> set (tx_pending tx)"
    using assms(1) by (cases "txn_at w t") (auto simp: pending_of_def)
  obtain W where ab: "abort_txn t w = fst (fire_txn t TxAbort (fold (\<lambda>r w. fst (fire_error t r AbortError w)) (tx_pending tx) W))"
    and W: "listeners_of W = listeners_of w" "w_proms W = w_proms w"
    using tx by (rule abort_txn_shape)
  have "idiom_req W r p"
    by (rule idiom_req_frame [OF W(1) proms_mono_frame [OF W(2)] assms(2)])
  then show ?thesis
    using fold_fire_error_settles [OF r] by (simp add: ab settled_def)
qed

section \<open>Running the first pending request\<close>

lemma pending_of_queue [simp]:
  "pending_of (fire_request e r o' n w) = pending_of w" "pending_of (set_result r x w) = pending_of w"
  "pending_of (fst (fire_error t r x' w)) = pending_of w"
  by (simp_all add: fun_eq_iff pending_of_pendings queue_frames)

lemma exec_native_queue:
  assumes "exec_native t op w = Inr (v, w')"
  shows "pending_of w' = pending_of w" "listeners_of w' = listeners_of w" "w_reqs w' = w_reqs w"
    "proms_mono w w'"
  using exec_native_frame [OF assms]
  by (simp_all add: fun_eq_iff pending_of_pendings pendings_def listeners_of_def proms_mono_frame)

text \<open>
  Running the first request \<open>r0\<close> of the list \<open>r0 # rs\<close>: it is taken off the list
  first, then run against the stores.
\<close>

lemma run_request_next:
  assumes "pending_of w t = r0 # rs"
  defines "W1 \<equiv> map_txn t (\<lambda>tx. tx\<lparr>tx_pending := rs\<rparr>) w"
  shows "run_request t w =
           (case req_at W1 r0 of
              None \<Rightarrow> W1
            | Some rq \<Rightarrow>
                (case exec_native t (rq_op rq) W1 of
                   Inr (v, w2) \<Rightarrow> fire_request ReqSuccess r0 0 None (set_result r0 (Inr v) w2)
                 | Inl e \<Rightarrow> (let (w2, cancelled) = fire_error t r0 e W1 in
                            if cancelled then w2 else abort_txn t w2)))"
    and "pending_of W1 t = rs" "listeners_of W1 = listeners_of w" "w_proms W1 = w_proms w"
proof -
  obtain tx where tx: "txn_at w t = Some tx" "tx_pending tx = r0 # rs"
    using assms(1) by (cases "txn_at w t") (auto simp: pending_of_def)
  then show "run_request t w =
           (case req_at W1 r0 of
              None \<Rightarrow> W1
            | Some rq \<Rightarrow>
                (case exec_native t (rq_op rq) W1 of
                   Inr (v, w2) \<Rightarrow> fire_request ReqSuccess r0 0 None (set_result r0 (Inr v) w2)
                 | Inl e \<Rightarrow> (let (w2, cancelled) = fire_error t r0 e W1 in
                            if cancelled then w2 else abort_txn t w2)))"
    unfolding W1_def by (simp add: run_request_def Let_def)
  show "pending_of W1 t = rs"
    using tx by (simp add: W1_def)
  show "listeners_of W1 = listeners_of w" "w_proms W1 = w_proms w"
    by (simp_all add: W1_def map_txn_queue)
qed

text \<open>
  The list of a transaction loses its first request at every run: it is then the
  rest of the list, or empty when the error of the request aborted the transaction.
\<close>

lemma run_request_pending:
  assumes "pending_of w t = r0 # rs"
  shows "pending_of (run_request t w) t \<in> {rs, []}"
proof -
  define W1 where "W1 = map_txn t (\<lambda>tx. tx\<lparr>tx_pending := rs\<rparr>) w"
  note nx = run_request_next [OF assms, folded W1_def]
  have fe: "pending_of w2 t = rs" if "fire_error t r0 e W1 = (w2, c)" for e w2 c
    using pending_of_queue(3) [of t r0 e W1] that nx(2) by simp
  show ?thesis
    unfolding nx(1)
    by (auto simp: nx(2) exec_native_queue(1) fe abort_txn_queue split: option.split sum.split prod.split)
qed

lemma run_request_shortens:
  "pending_of w t \<noteq> [] \<Longrightarrow> length (pending_of (run_request t w) t) < length (pending_of w t)"
  using run_request_pending [of w t "hd (pending_of w t)" "tl (pending_of w t)"] by auto

text \<open>
  Progress for one promise of the idiom whose request \<open>r\<close> waits on \<open>t\<close>: running
  the first request settles the promise, or leaves \<open>r\<close> waiting with its listeners.
\<close>

lemma run_request_progress:
  assumes pend: "pending_of w t = r0 # rs" and r: "r \<in> set (r0 # rs)" and idi: "idiom_req w r p"
  shows "settled (run_request t w) p \<or>
           (r \<in> set (pending_of (run_request t w) t) \<and> idiom_req (run_request t w) r p)"
proof -
  define W1 where "W1 = map_txn t (\<lambda>tx. tx\<lparr>tx_pending := rs\<rparr>) w"
  note nx = run_request_next [OF pend, folded W1_def]
  have i1: "idiom_req W1 r p"
    by (rule idiom_req_frame [OF nx(3) proms_mono_frame [OF nx(4)] idi])
  show ?thesis
  proof (cases "req_at W1 r0")
    case None
    then have "r \<in> set rs"
      using i1 r by (auto simp: idiom_req_alt req_at_def split: if_splits)
    with None nx i1 show ?thesis by simp
  next
    case (Some rq)
    show ?thesis
    proof (cases "exec_native t (rq_op rq) W1")
      case (Inr vw)
      then obtain v w2 where ex: "exec_native t (rq_op rq) W1 = Inr (v, w2)" by (cases vw) auto
      define W3 where "W3 = set_result r0 (Inr v) w2"
      note eq = exec_native_queue [OF ex]
      have res: "run_request t w = fire_request ReqSuccess r0 0 None W3"
        by (simp add: nx(1) Some ex W3_def)
      have i3: "idiom_req W3 r p"
        by (rule idiom_req_frame [OF _ _ i1])
           (simp_all add: W3_def set_result_queue eq proms_mono_trans [OF eq(4) proms_mono_set_result])
      show ?thesis
      proof (cases "r = r0")
        case True
        have "req_at w2 r0 = Some rq" using Some eq(3) req_at_frame [of w2 W1] by simp
        then have "req_result W3 r0 = Some (Inr v)"
          by (simp add: W3_def req_result_def req_at_set_result)
        then show ?thesis
          using fire_idiom_success_settles [OF i3 [unfolded True]] by (simp add: res True)
      next
        case False
        then have "r \<in> set (pending_of (run_request t w) t)"
          using r by (simp add: res W3_def eq(1) nx(2))
        moreover have "idiom_req (run_request t w) r p"
          unfolding res by (rule idiom_req_frame [OF _ proms_mono_fire_request i3]) (simp add: queue_frames)
        ultimately show ?thesis by simp
      qed
    next
      case (Inl e)
      obtain w2 c where fe: "fire_error t r0 e W1 = (w2, c)" by fastforce
      have res: "run_request t w = (if c then w2 else abort_txn t w2)"
        by (simp add: nx(1) Some Inl fe)
      have mono: "proms_mono w2 (run_request t w)"
        by (simp add: res proms_mono_abort_txn)
      have i2: "idiom_req w2 r p"
        using idiom_req_frame [OF fire_error_queue(1) proms_mono_fire_error i1, of t r0 e] fe by simp
      have p2: "pending_of w2 t = rs"
        using pending_of_queue(3) [of t r0 e W1] fe nx(2) by simp
      show ?thesis
      proof (cases "r = r0")
        case True
        then show ?thesis
          using fire_error_settles [OF i1, of t e] fe settled_mono [OF mono] by simp
      next
        case False
        then have "r \<in> set (pending_of w2 t)" using r p2 by simp
        then show ?thesis
          using abort_txn_settles [OF _ i2] i2 by (simp add: res)
      qed
    qed
  qed
qed

end
