(* ===== verification/Liveness.thy ===== *)
theory Liveness
  imports Host_Queue
begin

text \<open>
  Liveness of the request-to-promise idiom. \<open>run_all t\<close> is the host working
  through transaction \<open>t\<close>'s request list until it is empty; it terminates because
  every run takes the first request off the list (or empties it by aborting). Once it
  has run, every promise a wrapper method returned for a request of that list is
  settled: a promise of the library is never left pending by the host.
\<close>

section \<open>The host runs a transaction's requests to the end\<close>

function run_all :: "addr \<Rightarrow> world \<Rightarrow> world" where
  "run_all t w = (if pending_of w t = [] then w else run_all t (run_request t w))"
  by pat_completeness auto
termination
  by (relation "measure (\<lambda>(t, w). length (pending_of w t))") (simp_all add: run_request_shortens)

declare run_all.simps [simp del]

section \<open>Facts on the loop\<close>

lemma run_all_empty [simp]: "pending_of w t = [] \<Longrightarrow> run_all t w = w"
  by (simp add: run_all.simps)

lemma run_all_next: "pending_of w t \<noteq> [] \<Longrightarrow> run_all t w = run_all t (run_request t w)"
  by (simp add: run_all.simps)

lemma run_all_steps: "step\<^sup>*\<^sup>* w (run_all t w)"
proof (induction t w rule: run_all.induct)
  case (1 t w)
  show ?case
  proof (cases "pending_of w t = []")
    case False
    then show ?thesis
      using converse_rtranclp_into_rtranclp [OF step.host_run_request "1" [OF False]]
      by (simp add: run_all_next)
  qed simp
qed

lemma run_all_done: "pending_of (run_all t w) t = []"
  by (induction t w rule: run_all.induct) (metis run_all_empty run_all_next)

lemma proms_mono_run_all: "proms_mono w (run_all t w)"
proof (induction t w rule: run_all.induct)
  case (1 t w)
  show ?case
  proof (cases "pending_of w t = []")
    case False
    then show ?thesis
      using 1 proms_mono_trans [OF proms_mono_run_request] by (simp add: run_all_next)
  qed simp
qed

text \<open>Every promise of the idiom whose request waits on \<open>t\<close> is settled once the loop ended.\<close>

lemma run_all_settles: "r \<in> set (pending_of w t) \<Longrightarrow> idiom_req w r p \<Longrightarrow> settled (run_all t w) p"
proof (induction t w rule: run_all.induct)
  case (1 t w)
  obtain r0 rs where pend: "pending_of w t = r0 # rs"
    using "1.prems"(1) by (cases "pending_of w t") auto
  have ne: "pending_of w t \<noteq> []" using pend by simp
  from run_request_progress [OF pend _ "1.prems"(2)] "1.prems"(1) pend
  consider "settled (run_request t w) p"
    | "r \<in> set (pending_of (run_request t w) t)" "idiom_req (run_request t w) r p"
    by auto
  then show ?case
  proof cases
    case 1
    then show ?thesis
      using settled_mono [OF proms_mono_run_all] ne by (simp add: run_all_next)
  next
    case 2
    then show ?thesis
      using "1.IH" [OF ne] ne by (simp add: run_all_next)
  qed
qed

section \<open>The wrapper methods place requests of the idiom\<close>

lemma promisify_waits:
  assumes nat: "native (snd (new_promise w)) = Inr (r, w2)"
    and pl: "(r, w2) = place_request t op (snd (new_promise w))" and txn: "txn_at w t = Some tx"
  shows "r \<in> set (pending_of (snd (promisify (idiom_success u) native w)) t)"
    and "idiom_req (snd (promisify (idiom_success u) native w)) r (length (w_proms w))"
proof -
  note facts = promisify_placed(2-6) [where native = native and w = w and h = "idiom_success u", OF nat pl txn]
  show "r \<in> set (pending_of (snd (promisify (idiom_success u) native w)) t)"
    using facts(4) by (simp add: pending_of_def)
  show "idiom_req (snd (promisify (idiom_success u) native w)) r (length (w_proms w))"
    using facts(1,2) by (cases u) (auto simp: idiom_req_alt idiom_listeners_def req_at_def split: if_splits)
qed

text \<open>
  A promise of the idiom, on a native call that either throws or places its request
  on \<open>t\<close>, is settled once the host ran \<open>t\<close>'s list: at once when the call threw,
  by the loop otherwise.
\<close>

lemma promisify_eventually_settled:
  assumes "\<And>r w2. native (snd (new_promise w)) = Inr (r, w2) \<Longrightarrow>
             (\<exists>op. (r, w2) = place_request t op (snd (new_promise w))) \<and> txn_active w t"
  shows "settled (run_all t (snd (promisify (idiom_success u) native w))) (fst (promisify (idiom_success u) native w))"
proof (cases "native (snd (new_promise w))")
  case (Inl e)
  have "settled (reject_promise (length (w_proms w)) (RejException e) (snd (new_promise w))) (length (w_proms w))"
    by (simp add: reject_promise_def settled_settle new_promise_eq)
  then show ?thesis
    using Inl settled_mono [OF proms_mono_run_all] by (simp add: promisify_Inl)
next
  case (Inr rw)
  then obtain r w2 where nat: "native (snd (new_promise w)) = Inr (r, w2)" by (cases rw) auto
  obtain op where pl: "(r, w2) = place_request t op (snd (new_promise w))" and act: "txn_active w t"
    using assms [OF nat] by blast
  obtain tx where txn: "txn_at w t = Some tx"
    using act by (cases "txn_at w t") (simp_all add: txn_active_def)
  show ?thesis
    using run_all_settles [OF promisify_waits [where native = native and w = w, OF nat pl txn]] nat
    by (simp add: promisify_Inr)
qed

lemma store_native_active: "store_native t s c w = Inr rw \<Longrightarrow> txn_active w t"
  by (cases c) (auto simp: native_read_def native_read_counted_def native_store_def native_delete_def
      native_clear_def split: option.splits if_splits sum.splits)

lemma index_native_active: "index_native t s i c w = Inr rw \<Longrightarrow> txn_active w t"
  by (cases c) (auto simp: native_read_def native_read_counted_def split: option.splits if_splits sum.splits)

section \<open>Liveness of the wrapper's promises\<close>


text \<open>
  C26. The promise returned by any asynchronous method of the object-store wrapper,
  in any world, is settled once the host has run the requests of the store's
  transaction: no promise of \<open>PromisedIndexedDbObjectStore\<close> stays pending forever.
\<close>

theorem store_call_eventually_settled:
  "settled (run_all t (snd (store_call (PromisedIndexedDbObjectStore (StoreHandle t s)) c w)))
     (fst (store_call (PromisedIndexedDbObjectStore (StoreHandle t s)) c w))"
  unfolding store_call_promisify
proof (rule promisify_eventually_settled)
  fix r w2
  assume a: "store_native t s c (snd (new_promise w)) = Inr (r, w2)"
  show "(\<exists>op. (r, w2) = place_request t op (snd (new_promise w))) \<and> txn_active w t"
    using store_native_placed [OF a] store_native_active [OF a] by simp
qed

text \<open>
  C27. The same for every query method of the index wrapper
  \<open>PromisedIndexedDbIndex\<close>: its promise is settled once the host has run the
  requests of the index's transaction.
\<close>

theorem index_call_eventually_settled:
  "settled (run_all t (snd (index_call (PromisedIndexedDbIndex (IndexHandle t s i)) c w)))
     (fst (index_call (PromisedIndexedDbIndex (IndexHandle t s i)) c w))"
  unfolding index_call_promisify
proof (rule promisify_eventually_settled)
  fix r w2
  assume a: "index_native t s i c (snd (new_promise w)) = Inr (r, w2)"
  show "(\<exists>op. (r, w2) = place_request t op (snd (new_promise w))) \<and> txn_active w t"
    using index_native_placed [OF a] index_native_active [OF a] by simp
qed



end
