(* ===== verification/Promise_Invariant.thy ===== *)
theory Promise_Invariant
  imports Liveness
begin

text \<open>
  Where every pending promise of the library is, in every reachable world: either it
  is the promise of a request-to-promise idiom whose request still waits on some
  transaction (so that, by \<open>Liveness\<close>, the host settles it), or it is the promise
  of an \<open>openDatabase\<close> call, waiting on its open request. Each step of the system
  keeps this, and the liveness of the store and index methods follows for every
  reachable world.
\<close>

section \<open>The invariant\<close>

fun resolves_db_of :: "addr \<Rightarrow> req_event \<times> handler \<Rightarrow> bool" where
  "resolves_db_of p (ReqSuccess, ResolveDb p') = (p' = p)"
| "resolves_db_of p _ = False"

text \<open>\<open>p\<close> is the promise of an \<open>openDatabase\<close> call: a request resolves it with the database.\<close>

definition open_promise :: "world \<Rightarrow> addr \<Rightarrow> bool" where
  "open_promise w p \<longleftrightarrow> list_ex (list_ex (resolves_db_of p)) (listeners_of w)"

text \<open>\<open>p\<close> is the promise of an idiom request that waits on a transaction.\<close>

definition waiting_promise :: "world \<Rightarrow> addr \<Rightarrow> bool" where
  "waiting_promise w p \<longleftrightarrow> list_ex (\<lambda>tx. list_ex (\<lambda>r. idiom_req w r p) (tx_pending tx)) (w_txns w)"

definition promises_tracked :: "world \<Rightarrow> bool" where
  "promises_tracked w \<longleftrightarrow>
     (\<forall>p < length (w_proms w). w_proms w ! p = Pending \<longrightarrow> waiting_promise w p \<or> open_promise w p)"

text \<open>
  What a step has to do to keep the invariant: settle promises only, keep the listeners
  of the requests there were, settle the promise of every waiting idiom request it
  takes off a list, and leave each promise it creates tracked.
\<close>

definition tracks_step :: "world \<Rightarrow> world \<Rightarrow> bool" where
  "tracks_step w w' \<longleftrightarrow>
     proms_mono w w' \<and> prefix (listeners_of w) (listeners_of w') \<and>
     (\<forall>t r p. r \<in> set (pending_of w t) \<longrightarrow> idiom_req w r p \<longrightarrow>
        settled w' p \<or> (\<exists>t'. r \<in> set (pending_of w' t'))) \<and>
     (\<forall>p. length (w_proms w) \<le> p \<longrightarrow> p < length (w_proms w') \<longrightarrow> w_proms w' ! p = Pending \<longrightarrow>
        waiting_promise w' p \<or> open_promise w' p)"

text \<open>A step that creates no promise and changes no listener and no request list.\<close>

definition queue_same :: "world \<Rightarrow> world \<Rightarrow> bool" where
  "queue_same w w' \<longleftrightarrow>
     listeners_of w' = listeners_of w \<and> pending_of w' = pending_of w \<and> length (w_proms w') = length (w_proms w)"

named_theorems tracks_intros \<open>operations that keep every pending promise tracked\<close>

section \<open>Keeping the invariant\<close>

lemma waiting_promise_iff:
  "waiting_promise w p \<longleftrightarrow> (\<exists>t r. r \<in> set (pending_of w t) \<and> idiom_req w r p)"
proof
  assume "waiting_promise w p"
  then obtain tx r where "tx \<in> set (w_txns w)" "r \<in> set (tx_pending tx)" "idiom_req w r p"
    by (auto simp: waiting_promise_def list_ex_iff)
  then show "\<exists>t r. r \<in> set (pending_of w t) \<and> idiom_req w r p"
    by (metis in_set_conv_nth pending_of_def txn_at_def option.simps(5))
next
  assume "\<exists>t r. r \<in> set (pending_of w t) \<and> idiom_req w r p"
  then obtain t r where "r \<in> set (pending_of w t)" "idiom_req w r p" by blast
  then show "waiting_promise w p"
    by (auto simp: waiting_promise_def list_ex_iff pending_of_def txn_at_def split: if_splits)
qed

lemma idiom_req_ext:
  assumes "prefix (listeners_of w) (listeners_of w')" "proms_mono w w'" "idiom_req w r p"
  shows "idiom_req w' r p"
proof -
  have r: "r < length (w_reqs w)" using assms(3) by (simp add: idiom_req_def)
  obtain zs where zs: "listeners_of w' = listeners_of w @ zs"
    using assms(1) by (auto simp: prefix_def)
  have len: "length (w_reqs w) \<le> length (w_reqs w')"
    using arg_cong [OF zs, of length] by (simp add: listeners_of_def)
  have "r < length (listeners_of w)" using r by (simp add: listeners_of_def)
  then have "listeners_of w' ! r = listeners_of w ! r"
    by (simp add: zs nth_append)
  then have "rq_listeners (w_reqs w' ! r) = rq_listeners (w_reqs w ! r)"
    using r len by (simp add: listeners_of_def)
  with len show ?thesis
    using assms(2,3) r by (auto simp: idiom_req_def proms_mono_def)
qed

lemma open_promise_ext:
  "prefix (listeners_of w) (listeners_of w') \<Longrightarrow> open_promise w p \<Longrightarrow> open_promise w' p"
  by (auto simp: open_promise_def list_ex_iff dest: set_mono_prefix)

lemma tracked_step:
  assumes inv: "promises_tracked w" and st: "tracks_step w w'"
  shows "promises_tracked w'"
  unfolding promises_tracked_def
proof (intro allI impI)
  fix p
  assume p: "p < length (w_proms w')" and pend: "w_proms w' ! p = Pending"
  note s = st [unfolded tracks_step_def]
  show "waiting_promise w' p \<or> open_promise w' p"
  proof (cases "p < length (w_proms w)")
    case True
    then have "w_proms w ! p = Pending"
      using s pend by (auto simp: proms_mono_def)
    then have "waiting_promise w p \<or> open_promise w p"
      using inv True by (simp add: promises_tracked_def)
    then show ?thesis
    proof
      assume "waiting_promise w p"
      then obtain t r where r: "r \<in> set (pending_of w t)" "idiom_req w r p"
        by (auto simp: waiting_promise_iff)
      have "\<not> settled w' p" using pend by (simp add: settled_def)
      then obtain t' where "r \<in> set (pending_of w' t')"
        using s r by blast
      moreover have "idiom_req w' r p"
        using idiom_req_ext r(2) s by blast
      ultimately show ?thesis
        by (auto simp: waiting_promise_iff)
    next
      assume "open_promise w p"
      then show ?thesis
        using open_promise_ext s by blast
    qed
  next
    case False
    then show ?thesis using s p pend by simp
  qed
qed

lemma tracks_frame:
  assumes "pending_of w' = pending_of w" "prefix (listeners_of w) (listeners_of w')"
    "proms_mono w w'" "length (w_proms w') = length (w_proms w)"
  shows "tracks_step w w'"
  using assms by (auto simp: tracks_step_def)

section \<open>Steps that leave the requests and the request lists alone\<close>

lemma tracks_frame_eq:
  "w_reqs w' = w_reqs w \<Longrightarrow> w_proms w' = w_proms w \<Longrightarrow> pending_of w' = pending_of w \<Longrightarrow> tracks_step w w'"
  by (rule tracks_frame) (simp_all add: listeners_of_def proms_mono_frame)

lemma pending_of_map_txn_keep:
  "(\<And>tx. tx_pending (f tx) = tx_pending tx) \<Longrightarrow> pending_of (map_txn t f w) = pending_of w"
  by (simp add: fun_eq_iff pending_of_pendings pendings_def map_txn_def map_upd_at_keep)

lemma pending_of_append_txn:
  "tx_pending tx = [] \<Longrightarrow> pending_of (w\<lparr>w_txns := w_txns w @ [tx]\<rparr>) = pending_of w"
  by (auto simp: fun_eq_iff pending_of_def txn_at_def nth_append)

lemma tracks_txn_calls [tracks_intros]:
  "tracks_step w (txn_addEventListener x e cb w)" "tracks_step w (txn_removeEventListener x e cb w)"
  "tracks_step w (snd (txn_dispatchEvent x e c w))"
proof -
  obtain t where x: "x = PromisedIndexedDbTransaction t" by (cases x)
  show "tracks_step w (txn_addEventListener x e cb w)"
    by (rule tracks_frame_eq)
       (simp_all add: x txn_addEventListener_def native_addEventListener_def pending_of_map_txn_keep)
  show "tracks_step w (txn_removeEventListener x e cb w)"
    by (rule tracks_frame_eq)
       (simp_all add: x txn_removeEventListener_def native_removeEventListener_def pending_of_map_txn_keep)
  have "snd (txn_dispatchEvent x e c w) = fst (fire_txn t e w)"
    by (simp add: x txn_dispatchEvent_def native_dispatchEvent_def case_prod_beta)
  then show "tracks_step w (snd (txn_dispatchEvent x e c w))"
    by (intro tracks_frame_eq) (simp_all add: fun_eq_iff pending_of_pendings fire_txn_queue)
qed

lemma tracks_txn_commit: "txn_commit x w = Inr w' \<Longrightarrow> tracks_step w w'"
  by (cases x) (auto simp: txn_commit_def native_commit_def map_txn_def pending_of_map_txn_keep [unfolded map_txn_def]
      intro!: tracks_frame_eq split: if_splits)

lemma tracks_db_close [tracks_intros]: "tracks_step w (db_close x w)"
  by (cases x) (auto simp: db_close_def native_close_def fun_eq_iff pending_of_def txn_at_def intro!: tracks_frame_eq)

lemma tracks_db_transaction: "db_transaction x ns m w = Inr (y, w') \<Longrightarrow> tracks_step w w'"
  by (cases x) (auto simp: db_transaction_def native_transaction_def alloc_def new_txn_def pending_of_append_txn
      intro!: tracks_frame_eq split: option.splits if_splits)

lemma tracks_start_txn [tracks_intros]: "tracks_step w (start_txn t w)"
  by (rule tracks_frame_eq) (simp_all add: start_txn_def pending_of_map_txn_keep)

lemma tracks_commit_txn [tracks_intros]: "tracks_step w (commit_txn t w)"
  by (rule tracks_frame_eq)
     (simp_all add: commit_txn_def fun_eq_iff pending_of_pendings fire_txn_queue, simp_all add: map_txn_def pendings_def map_upd_at_keep)

section \<open>Steps that create no promise and keep every request list\<close>

lemma queue_same_refl [simp]: "queue_same w w"
  by (simp add: queue_same_def)

lemma queue_same_trans [trans]: "queue_same w1 w2 \<Longrightarrow> queue_same w2 w3 \<Longrightarrow> queue_same w1 w3"
  by (simp add: queue_same_def)

lemma tracks_queue_same: "proms_mono w w' \<Longrightarrow> queue_same w w' \<Longrightarrow> tracks_step w w'"
  by (rule tracks_frame) (simp_all add: queue_same_def)

lemma queue_sameI:
  "w_reqs w' = w_reqs w \<Longrightarrow> w_txns w' = w_txns w \<Longrightarrow> w_proms w' = w_proms w \<Longrightarrow> queue_same w w'"
  by (simp add: queue_same_def listeners_of_def fun_eq_iff pending_of_def txn_at_def)

lemma run_handler_len [simp]: "length (w_proms (run_handler r o' n h w)) = length (w_proms w)"
  by (cases h) (auto simp: resolve_promise_def reject_promise_def run_migration_def Let_def
      split: option.split sum.split pvalue.split)

lemma queue_same_run_handler: "queue_same w (run_handler r o' n h w)"
  by (simp add: queue_same_def listeners_of_def run_handler_queue fun_eq_iff pending_of_pendings)

lemma queue_same_fold:
  assumes "\<And>x w. queue_same w (f x w)"
  shows "queue_same w (fold f xs w)"
  by (induction xs arbitrary: w) (auto intro: queue_same_trans assms)

lemma queue_same_fire_request: "queue_same w (fire_request e r o' n w)"
  by (auto simp: fire_request_def fold_event_filter intro: queue_same_fold queue_same_run_handler
      split: option.split)

lemma queue_same_set_result: "queue_same w (set_result r x w)"
  by (simp add: queue_same_def set_result_queue fun_eq_iff pending_of_pendings)

lemma queue_same_map_req:
  "(\<And>rq. rq_listeners (f rq) = rq_listeners rq) \<Longrightarrow> queue_same w (map_req r f w)"
  by (simp add: queue_same_def listeners_of_def map_req_def map_upd_at_keep fun_eq_iff pending_of_def txn_at_def)

lemma queue_same_map_db: "queue_same w (map_db n f w)"
  by (rule queue_sameI) (simp_all add: map_db_def split: option.split)

lemma queue_same_open_connection: "open_connection n w = (c, w') \<Longrightarrow> queue_same w w'"
  by (rule queue_sameI) (auto simp: open_connection_def Let_def alloc_def split: if_splits)

lemma queue_same_begin_upgrade:
  assumes "begin_upgrade r c n v w = (t, w')"
  shows "queue_same w w'"
proof -
  define ss where "ss = (case map_of (w_dbs w) n of None \<Rightarrow> [] | Some d \<Rightarrow> db_stores d)"
  define W where "W = w\<lparr>w_txns := w_txns w @ [upgrade_txn c ss]\<rparr>"
  have w': "w' = map_db n (\<lambda>d. d\<lparr>db_version := v\<rparr>)
                  (map_req r (\<lambda>rq. rq\<lparr>rq_txn := Some (length (w_txns w)), rq_result := Some (Inr (PConn c))\<rparr>) W)"
    using assms by (auto simp: begin_upgrade_def Let_def alloc_def ss_def W_def)
  have "queue_same w W"
    by (simp add: queue_same_def W_def listeners_of_def pending_of_append_txn upgrade_txn_def)
  also have "queue_same W (map_req r (\<lambda>rq. rq\<lparr>rq_txn := Some (length (w_txns w)), rq_result := Some (Inr (PConn c))\<rparr>) W)"
    by (rule queue_same_map_req) simp
  finally show ?thesis
    unfolding w' using queue_same_map_db queue_same_trans by blast
qed

lemma queue_same_map_txn:
  "(\<And>tx. tx_pending (f tx) = tx_pending tx) \<Longrightarrow> queue_same w (map_txn t f w)"
  by (simp add: queue_same_def map_txn_queue pending_of_map_txn_keep)

lemma queue_same_finish_upgrade: "queue_same w (finish_upgrade r c t n old w)"
proof (cases "txn_at w t")
  case (Some tx)
  have a: "queue_same w (fire_request ReqError r 0 None
             (map_req r (\<lambda>rq. rq\<lparr>rq_txn := None, rq_result := Some (Inl AbortError)\<rparr>)
               (map_db n (\<lambda>d. d\<lparr>db_version := old, db_stores := tx_backup tx\<rparr>)
                 (w\<lparr>w_conns := upd_at c (\<lambda>cn. cn\<lparr>cn_closed := True\<rparr>) (w_conns w)\<rparr>))))"
    by (rule queue_same_trans [OF queue_same_trans [OF queue_same_trans [OF queue_sameI
          queue_same_map_db] queue_same_map_req] queue_same_fire_request]) simp_all
  have b: "queue_same w (fire_request ReqSuccess r 0 None
             (map_req r (\<lambda>rq. rq\<lparr>rq_txn := None\<rparr>) (map_txn t (\<lambda>tx. tx\<lparr>tx_state := TxCommitted\<rparr>) w)))"
    by (rule queue_same_trans [OF queue_same_trans [OF queue_same_map_txn queue_same_map_req]
          queue_same_fire_request]) simp_all
  show ?thesis
    using Some a b by (simp add: finish_upgrade_def)
qed (simp add: finish_upgrade_def)

lemma queue_same_run_open: "queue_same w (run_open r w)"
proof (cases "pending_open w r")
  case (Some nv)
  obtain name v where nv: "nv = (name, v)" by fastforce
  obtain c w1 where oc: "open_connection name w = (c, w1)" by fastforce
  obtain t w2 where bu: "begin_upgrade r c name v w1 = (t, w2)" by fastforce
  have q1: "queue_same w w1" using oc by (rule queue_same_open_connection)
  have q2: "queue_same w w2" using q1 queue_same_begin_upgrade [OF bu] by (rule queue_same_trans)
  have "queue_same w (finish_upgrade r c t name (db_old_version w name)
          (fire_request ReqUpgradeNeeded r (db_old_version w name) (Some v) w2))"
    by (rule queue_same_trans [OF queue_same_trans [OF q2 queue_same_fire_request] queue_same_finish_upgrade])
  moreover have "queue_same w (fire_request ReqSuccess r 0 None (set_result r (Inr (PConn c)) w1))"
    by (rule queue_same_trans [OF queue_same_trans [OF q1 queue_same_set_result] queue_same_fire_request])
  moreover have "queue_same w (fire_request ReqError r 0 None (set_result r (Inl VersionError) w))"
    by (rule queue_same_trans [OF queue_same_set_result queue_same_fire_request])
  ultimately show ?thesis
    using Some nv oc bu by (simp add: run_open_def Let_def)
qed (simp add: run_open_def)

lemma queue_same_open_blocked: "queue_same w (open_blocked r w)"
  by (simp add: open_blocked_def queue_same_fire_request split: option.split prod.split)

lemma tracks_run_open [tracks_intros]: "tracks_step w (run_open r w)"
  by (rule tracks_queue_same [OF proms_mono_run_open queue_same_run_open])

lemma tracks_open_blocked [tracks_intros]: "tracks_step w (open_blocked r w)"
  by (rule tracks_queue_same [OF proms_mono_open_blocked queue_same_open_blocked])

section \<open>Steps that create a promise\<close>

text \<open>A new promise rejected at once (the native call threw in the executor).\<close>

lemma tracks_reject_new:
  "tracks_step w (reject_promise (length (w_proms w)) e (snd (new_promise w)))"
proof -
  let ?p = "length (w_proms w)"
  let ?W = "reject_promise ?p e (snd (new_promise w))"
  have pm: "proms_mono w ?W"
    by (rule proms_mono_trans [OF proms_mono_new_promise]) (simp add: reject_promise_def proms_mono_settle)
  have len: "length (w_proms ?W) = Suc ?p" "w_proms ?W ! ?p = Rejected e"
    by (simp_all add: reject_promise_def new_promise_eq)
  have pe: "pending_of ?W = pending_of w" "listeners_of ?W = listeners_of w"
    by (simp_all add: reject_promise_def new_promise_eq fun_eq_iff pending_of_def txn_at_def listeners_of_def)
  show ?thesis
    using pm len pe by (auto simp: tracks_step_def less_Suc_eq)
qed

lemma tracks_promisify_placed:
  assumes nat: "native (snd (new_promise w)) = Inr (r, w2)"
    and pl: "(r, w2) = place_request t op (snd (new_promise w))" and txn: "txn_at w t = Some tx"
  shows "tracks_step w (snd (promisify (idiom_success u) native w))"
proof -
  let ?p = "length (w_proms w)"
  let ?W = "snd (promisify (idiom_success u) native w)"
  have W: "?W = add_req_listener r ReqError (RejectEvent ?p) (add_req_listener r ReqSuccess (idiom_success u ?p r) w2)"
    using nat by (simp add: promisify_Inr)
  have r: "r = length (w_reqs w)" and w2: "w2 = map_txn t (\<lambda>tx. tx\<lparr>tx_pending := tx_pending tx @ [r]\<rparr>)
      (w\<lparr>w_proms := w_proms w @ [Pending],
         w_reqs := w_reqs w @ [\<lparr>rq_txn = Some t, rq_op = op, rq_result = None, rq_listeners = []\<rparr>]\<rparr>)"
    using pl by (simp_all add: place_request_eq new_promise_eq)
  have pm: "proms_mono w ?W"
    by (simp add: W w2 proms_mono_def nth_append)
  have "listeners_of ?W = listeners_of w @ [idiom_listeners u ?p r]"
    by (simp add: W w2 r listeners_of_def add_req_listener_def map_req_def idiom_listeners_def)
  then have pre: "prefix (listeners_of w) (listeners_of ?W)" by simp
  have tW: "txn_at ?W t' = (if t = t' then map_option (\<lambda>tx. tx\<lparr>tx_pending := tx_pending tx @ [r]\<rparr>) (txn_at w t')
                           else txn_at w t')" for t'
    by (simp add: W w2 txn_at_def map_txn_def)
  have pend: "set (pending_of w t') \<subseteq> set (pending_of ?W t')" for t'
    by (cases "t = t'") (auto simp: pending_of_def tW split: option.split)
  have "waiting_promise ?W ?p"
    using promisify_waits [where native = native and w = w and u = u, OF nat pl txn] by (auto simp: waiting_promise_iff)
  moreover have "length (w_proms ?W) = Suc ?p"
    by (simp add: W w2)
  ultimately show ?thesis
    using pm pre pend by (auto simp: tracks_step_def less_Suc_eq)
qed

text \<open>Every call of the idiom whose native call throws or places its request on an active transaction.\<close>

lemma tracks_promisify:
  assumes "\<And>r w2. native (snd (new_promise w)) = Inr (r, w2) \<Longrightarrow>
             (\<exists>op. (r, w2) = place_request t op (snd (new_promise w))) \<and> txn_active w t"
  shows "tracks_step w (snd (promisify (idiom_success u) native w))"
proof (cases "native (snd (new_promise w))")
  case (Inl e)
  then show ?thesis
    using tracks_reject_new [of w "RejException e"] by (simp add: promisify_Inl)
next
  case (Inr rw)
  then obtain r w2 where nat: "native (snd (new_promise w)) = Inr (r, w2)" by (cases rw) auto
  obtain op where pl: "(r, w2) = place_request t op (snd (new_promise w))" and act: "txn_active w t"
    using assms [OF nat] by blast
  obtain tx where txn: "txn_at w t = Some tx"
    using act by (cases "txn_at w t") (simp_all add: txn_active_def)
  show ?thesis
    by (rule tracks_promisify_placed [where native = native and w = w, OF nat pl txn])
qed

lemma tracks_store_call [tracks_intros]: "tracks_step w (snd (store_call x c w))"
proof -
  obtain t s where x: "x = PromisedIndexedDbObjectStore (StoreHandle t s)"
    by (metis promised_store.exhaust store_handle.exhaust)
  show ?thesis
    unfolding x store_call_promisify
  proof (rule tracks_promisify)
    fix r w2
    assume a: "store_native t s c (snd (new_promise w)) = Inr (r, w2)"
    show "(\<exists>op. (r, w2) = place_request t op (snd (new_promise w))) \<and> txn_active w t"
      using store_native_placed [OF a] store_native_active [OF a] by simp
  qed
qed

lemma tracks_index_call [tracks_intros]: "tracks_step w (snd (index_call x c w))"
proof -
  obtain t s i where x: "x = PromisedIndexedDbIndex (IndexHandle t s i)"
    by (metis promised_index.exhaust index_handle.exhaust)
  show ?thesis
    unfolding x index_call_promisify
  proof (rule tracks_promisify)
    fix r w2
    assume a: "index_native t s i c (snd (new_promise w)) = Inr (r, w2)"
    show "(\<exists>op. (r, w2) = place_request t op (snd (new_promise w))) \<and> txn_active w t"
      using index_native_placed [OF a] index_native_active [OF a] by simp
  qed
qed

lemma tracks_openDatabase [tracks_intros]: "tracks_step w (snd (openDatabase n v m b w))"
proof (cases "1 \<le> v \<and> v < 2 ^ 53")
  case True
  let ?p = "length (w_proms w)"
  let ?W = "snd (openDatabase n v m b w)"
  have W: "?W = w\<lparr>w_proms := w_proms w @ [Pending],
              w_reqs := w_reqs w @ [\<lparr>rq_txn = None, rq_op = NOpen n (nat v), rq_result = None,
                 rq_listeners = open_listeners ?p m b\<rparr>]\<rparr>"
    using True openDatabase_placed [of v n m b w] by simp
  have "listeners_of ?W = listeners_of w @ [open_listeners ?p m b]"
    by (simp add: W listeners_of_def)
  then have "prefix (listeners_of w) (listeners_of ?W)" "open_promise ?W ?p"
    by (simp_all add: open_promise_def open_listeners_def)
  moreover have "pending_of ?W = pending_of w"
    by (simp add: W fun_eq_iff pending_of_def txn_at_def)
  moreover have "length (w_proms ?W) = Suc ?p" by (simp add: W)
  ultimately show ?thesis
    using proms_mono_openDatabase [of w n v m b] by (auto simp: tracks_step_def less_Suc_eq)
next
  case False
  then have "native_open n v (snd (new_promise w)) = Inl TypeError"
    by (auto simp: native_open_def)
  then have "snd (openDatabase n v m b w) = reject_promise (length (w_proms w)) (RejException TypeError) (snd (new_promise w))"
    by (simp add: openDatabase_def new_promise_def case_prod_beta alloc_def)
  then show ?thesis
    using tracks_reject_new [of w "RejException TypeError"] by simp
qed

section \<open>Aborting and running a request\<close>

lemma queue_same_fire_error: "queue_same w (fst (fire_error t r e w))"
proof -
  have "queue_same w (fire_request ReqError r 0 None (set_result r (Inl e) w))"
    by (rule queue_same_trans [OF queue_same_set_result queue_same_fire_request])
  moreover have "queue_same w' (fst (fire_txn t TxError w'))" for w'
    by (rule queue_sameI) simp_all
  ultimately show ?thesis
    unfolding fire_error_def by (rule queue_same_trans)
qed

lemma abort_txn_views:
  "listeners_of (abort_txn t w) = listeners_of w" "length (w_proms (abort_txn t w)) = length (w_proms w)"
  "t' \<noteq> t \<Longrightarrow> pending_of (abort_txn t w) t' = pending_of w t'"
proof -
  have "listeners_of (abort_txn t w) = listeners_of w \<and> length (w_proms (abort_txn t w)) = length (w_proms w) \<and>
        (t' \<noteq> t \<longrightarrow> pending_of (abort_txn t w) t' = pending_of w t')"
  proof (cases "txn_at w t")
    case None
    then show ?thesis by (simp add: abort_txn_def)
  next
    case (Some tx)
    then obtain W where ab: "abort_txn t w = fst (fire_txn t TxAbort (fold (\<lambda>r w. fst (fire_error t r AbortError w)) (tx_pending tx) W))"
      and W: "listeners_of W = listeners_of w" "w_proms W = w_proms w"
        "\<And>t'. t' \<noteq> t \<Longrightarrow> pending_of W t' = pending_of w t'"
      by (rule abort_txn_shape) blast
    have "queue_same W (fold (\<lambda>r w. fst (fire_error t r AbortError w)) (tx_pending tx) W)"
      by (rule queue_same_fold) (rule queue_same_fire_error)
    moreover have "queue_same w' (fst (fire_txn t TxAbort w'))" for w'
      by (rule queue_sameI) simp_all
    ultimately have "queue_same W (abort_txn t w)"
      unfolding ab by (rule queue_same_trans)
    then show ?thesis
      using W by (simp add: queue_same_def)
  qed
  then show "listeners_of (abort_txn t w) = listeners_of w" "length (w_proms (abort_txn t w)) = length (w_proms w)"
    "t' \<noteq> t \<Longrightarrow> pending_of (abort_txn t w) t' = pending_of w t'"
    by simp_all
qed

lemma tracks_abort_txn: "tracks_step w (abort_txn t w)"
  unfolding tracks_step_def
proof (intro conjI allI impI)
  show "proms_mono w (abort_txn t w)" by (rule proms_mono_abort_txn)
  show "prefix (listeners_of w) (listeners_of (abort_txn t w))" by (simp add: abort_txn_views)
  fix t0 r p
  assume r: "r \<in> set (pending_of w t0)" "idiom_req w r p"
  show "settled (abort_txn t w) p \<or> (\<exists>t'. r \<in> set (pending_of (abort_txn t w) t'))"
  proof (cases "t0 = t")
    case True
    then show ?thesis using abort_txn_settles r by blast
  next
    case False
    then have "r \<in> set (pending_of (abort_txn t w) t0)"
      using r(1) abort_txn_views(3) [OF False] by simp
    then show ?thesis by blast
  qed
qed (simp add: abort_txn_views)

lemma tracks_txn_abort: "txn_abort x w = Inr w' \<Longrightarrow> tracks_step w w'"
  by (cases x) (auto simp: txn_abort_def native_abort_def tracks_abort_txn split: option.splits if_splits)

lemma run_request_views:
  "listeners_of (run_request t w) = listeners_of w \<and> length (w_proms (run_request t w)) = length (w_proms w) \<and>
   (\<forall>t'. t' \<noteq> t \<longrightarrow> pending_of (run_request t w) t' = pending_of w t')"
  (is "?Q (run_request t w)")
proof (cases "pending_of w t")
  case Nil
  then have "run_request t w = w"
    by (cases "txn_at w t") (simp_all add: run_request_def pending_of_def)
  then show ?thesis by simp
next
  case (Cons r0 rs)
  define W1 where "W1 = map_txn t (\<lambda>tx. tx\<lparr>tx_pending := rs\<rparr>) w"
  note nx = run_request_next [OF Cons, folded W1_def]
  have q1: "?Q W1"
    using nx(3,4) by (simp add: W1_def pending_of_def txn_at_map_txn)
  have qs: "?Q X" if "queue_same W1 X" for X
    using q1 that by (simp add: queue_same_def)
  have qa: "?Q (abort_txn t X)" if "?Q X" for X
    using that by (simp add: abort_txn_views)
  show ?thesis
  proof (cases "req_at W1 r0")
    case None
    then show ?thesis using q1 by (simp add: nx(1))
  next
    case (Some rq)
    show ?thesis
    proof (cases "exec_native t (rq_op rq) W1")
      case (Inr vw)
      then obtain v w2 where ex: "exec_native t (rq_op rq) W1 = Inr (v, w2)" by (cases vw) auto
      have "queue_same W1 w2"
        using exec_native_queue [OF ex] exec_native_frame [OF ex] by (simp add: queue_same_def)
      then have "queue_same W1 (fire_request ReqSuccess r0 0 None (set_result r0 (Inr v) w2))"
        using queue_same_trans queue_same_set_result queue_same_fire_request by meson
      then have "?Q (fire_request ReqSuccess r0 0 None (set_result r0 (Inr v) w2))" by (rule qs)
      moreover have "run_request t w = fire_request ReqSuccess r0 0 None (set_result r0 (Inr v) w2)"
        by (simp add: nx(1) Some ex)
      ultimately show ?thesis by metis
    next
      case (Inl e)
      obtain w2 c where fe: "fire_error t r0 e W1 = (w2, c)" by fastforce
      have "queue_same W1 w2" using queue_same_fire_error [of W1 t r0 e] fe by simp
      then have "?Q w2" by (rule qs)
      then have "?Q (if c then w2 else abort_txn t w2)" using qa by simp
      moreover have "run_request t w = (if c then w2 else abort_txn t w2)"
        by (simp add: nx(1) Some Inl fe)
      ultimately show ?thesis by metis
    qed
  qed
qed

lemma tracks_run_request [tracks_intros]: "tracks_step w (run_request t w)"
  unfolding tracks_step_def
proof (intro conjI allI impI)
  show "proms_mono w (run_request t w)" by (rule proms_mono_run_request)
  show "prefix (listeners_of w) (listeners_of (run_request t w))" by (simp add: run_request_views)
  fix t0 r p
  assume r: "r \<in> set (pending_of w t0)" "idiom_req w r p"
  show "settled (run_request t w) p \<or> (\<exists>t'. r \<in> set (pending_of (run_request t w) t'))"
  proof (cases "t0 = t")
    case True
    obtain r0 rs where pend: "pending_of w t = r0 # rs"
      using r(1) True by (cases "pending_of w t") auto
    show ?thesis
      using run_request_progress [OF pend _ r(2)] r(1) True pend by auto
  next
    case False
    then have "r \<in> set (pending_of (run_request t w) t0)"
      using r(1) run_request_views by simp
    then show ?thesis by blast
  qed
qed (simp add: run_request_views)

section \<open>Every step keeps every pending promise tracked\<close>

lemma step_tracks: "step w w' \<Longrightarrow> tracks_step w w'"
  by (induction rule: step.induct)
     (auto intro: tracks_intros tracks_txn_abort tracks_txn_commit tracks_db_transaction)

lemma reachable_promises_tracked: "reachable w \<Longrightarrow> promises_tracked w"
proof (induction rule: reachable.induct)
  case init
  then show ?case by (simp add: promises_tracked_def empty_world_def)
next
  case (extend w w')
  then show ?case using tracked_step step_tracks by blast
qed

text \<open>
  C31. In every world reachable by wrapper calls and host steps, every pending promise
  is tracked: it is the promise of a store or index method whose request still waits,
  with the idiom's two listeners, on a transaction, or the promise of an
  \<open>openDatabase\<close> call. No promise of the library is ever orphaned.
\<close>

theorem reachable_tracked:
  assumes "reachable w"
  shows "promises_tracked w"
  using reachable_promises_tracked [OF assms] .

theorem reachable_tracked_witness:
  "reachable (snd (store_call (PromisedIndexedDbObjectStore (StoreHandle 0 ''items'')) (SGet (QKey (KNum 1)))
      (run_open 0 (snd (openDatabase ''shop'' 1 shop_migration None empty_world))))) \<and>
   promises_tracked (snd (store_call (PromisedIndexedDbObjectStore (StoreHandle 0 ''items'')) (SGet (QKey (KNum 1)))
      (run_open 0 (snd (openDatabase ''shop'' 1 shop_migration None empty_world)))))"
proof -
  have r: "reachable (snd (store_call (PromisedIndexedDbObjectStore (StoreHandle 0 ''items'')) (SGet (QKey (KNum 1)))
      (run_open 0 (snd (openDatabase ''shop'' 1 shop_migration None empty_world)))))"
    by (rule reachable.extend [OF reachable.extend [OF reachable.extend [OF reachable.init step.open_database]
          step.host_open] step.store_call])
  show ?thesis
    using r reachable_tracked [OF r] by simp
qed

text \<open>
  C32. Liveness in every reachable world: a promise that is not the promise of an
  \<open>openDatabase\<close> call (one whose open request may stay blocked while another
  connection stays open) is settled after some sequence of steps of the system.
\<close>

theorem reachable_promise_settles:
  assumes "reachable w" "p < length (w_proms w)" "\<not> open_promise w p"
  shows "\<exists>w'. step\<^sup>*\<^sup>* w w' \<and> settled w' p"
proof (cases "w_proms w ! p = Pending")
  case True
  then have "waiting_promise w p"
    using reachable_promises_tracked [OF assms(1)] assms(2,3) by (auto simp: promises_tracked_def)
  then obtain t r where "r \<in> set (pending_of w t)" "idiom_req w r p"
    by (auto simp: waiting_promise_iff)
  then show ?thesis
    using run_all_steps run_all_settles by blast
next
  case False
  then show ?thesis
    using assms(2) by (auto simp: settled_def)
qed

theorem reachable_promise_settles_witness:
  "reachable (snd (store_call (PromisedIndexedDbObjectStore (StoreHandle 0 ''items'')) (SGet (QKey (KNum 1)))
      (run_open 0 (snd (openDatabase ''shop'' 1 shop_migration None empty_world))))) \<and>
   1 < length (w_proms (snd (store_call (PromisedIndexedDbObjectStore (StoreHandle 0 ''items'')) (SGet (QKey (KNum 1)))
      (run_open 0 (snd (openDatabase ''shop'' 1 shop_migration None empty_world)))))) \<and>
   \<not> open_promise (snd (store_call (PromisedIndexedDbObjectStore (StoreHandle 0 ''items'')) (SGet (QKey (KNum 1)))
      (run_open 0 (snd (openDatabase ''shop'' 1 shop_migration None empty_world))))) 1 \<and>
   (\<exists>w'. step\<^sup>*\<^sup>* (snd (store_call (PromisedIndexedDbObjectStore (StoreHandle 0 ''items'')) (SGet (QKey (KNum 1)))
      (run_open 0 (snd (openDatabase ''shop'' 1 shop_migration None empty_world))))) w' \<and> settled w' 1)"
proof -
  have h: "reachable (snd (store_call (PromisedIndexedDbObjectStore (StoreHandle 0 ''items'')) (SGet (QKey (KNum 1)))
      (run_open 0 (snd (openDatabase ''shop'' 1 shop_migration None empty_world)))))"
    by (rule reachable.extend [OF reachable.extend [OF reachable.extend [OF reachable.init step.open_database]
          step.host_open] step.store_call])
  have h2: "1 < length (w_proms (snd (store_call (PromisedIndexedDbObjectStore (StoreHandle 0 ''items'')) (SGet (QKey (KNum 1)))
      (run_open 0 (snd (openDatabase ''shop'' 1 shop_migration None empty_world))))))"
    "\<not> open_promise (snd (store_call (PromisedIndexedDbObjectStore (StoreHandle 0 ''items'')) (SGet (QKey (KNum 1)))
      (run_open 0 (snd (openDatabase ''shop'' 1 shop_migration None empty_world))))) 1"
    by code_simp+
  show ?thesis
    by (intro conjI h h2 reachable_promise_settles [OF h h2])
qed

end
