(* ===== verification/Read_Equivalence.thy ===== *)
theory Read_Equivalence
  imports Store_Wrapper
begin

text \<open>
  How the single-record reads of the wrappers relate to the list reads:
  \<open>get(q)\<close> resolves with the first value \<open>getAll(q, 1)\<close> resolves with, or
  \<open>undefined\<close> when that list is empty; \<open>getKey(q)\<close> likewise with
  \<open>getAllKeys(q, 1)\<close>. Both on the object-store wrapper and on the index wrapper,
  since both read through the host's retrieval algorithm, over the store's records
  or over the index's.
\<close>

section \<open>The retrieval algorithm\<close>

lemma exec_read_get_getAll:
  "\<exists>vs. exec_read (RGetAll 1) q es = JList vs \<and> length vs \<le> 1 \<and>
        exec_read RGet q es = (case vs of [] \<Rightarrow> JUndefined | v # _ \<Rightarrow> v)"
  by (cases "matching q es") (auto simp: limit_count_def)

lemma exec_read_getKey_getAllKeys:
  "\<exists>ks. exec_read (RGetAllKeys 1) q es = JList ks \<and> length ks \<le> 1 \<and>
        exec_read RGetKey q es = (case ks of [] \<Rightarrow> JUndefined | k # _ \<Rightarrow> k)"
  by (cases "matching q es") (auto simp: limit_count_def)

section \<open>Reads of a store and of an index run by the host\<close>

lemma exec_store_read:
  "store_of w t s = Some os \<Longrightarrow>
     exec_on_stores (NRead op s None q) (txn_stores w t) = Inr (PJs (exec_read op q (store_entries os)), txn_stores w t)"
  by (simp add: exec_on_stores_def store_of_def)

lemma exec_index_read:
  "store_of w t s = Some os \<Longrightarrow> map_of (os_indexes os) i = Some d \<Longrightarrow>
     exec_on_stores (NRead op s (Some i) q) (txn_stores w t) = Inr (PJs (exec_read op q (index_entries d os)), txn_stores w t)"
  by (simp add: exec_on_stores_def store_of_def)

text \<open>
  A read placed by the idiom on an active transaction with no other pending request
  resolves with the retrieval algorithm's result on the source's entries.
\<close>

lemma read_run_result:
  assumes txn: "txn_at w t = Some tx" "tx_pending tx = []"
    and nat: "native (snd (new_promise w)) = Inr (place_request t (NRead op s ix q) (snd (new_promise w)))"
    and ex: "exec_on_stores (NRead op s ix q) (txn_stores w t) = Inr (PJs (exec_read op q es), txn_stores w t)"
  shows "w_proms (run_request t (snd (promisify (idiom_success False) native w))) ! length (w_proms w) =
           Fulfilled (PJs (exec_read op q es))"
  using promisify_run_ok(1) [where native = native and u = False, OF txn nat ex] by simp

lemma store_read_placed:
  assumes "store_of w t s = Some os" "txn_active w t" "q \<noteq> QNone"
  shows "native_read op t s None q (snd (new_promise w)) = Inr (place_request t (NRead op s None q) (snd (new_promise w)))"
    and "native_read_counted RGetAll t s None q (Some 1) (snd (new_promise w)) =
           Inr (place_request t (NRead (RGetAll 1) s None q) (snd (new_promise w)))"
  using assms by (simp_all add: native_read_def native_read_counted_def convert_count_def)

lemma index_read_placed:
  assumes "store_of w t s = Some os" "map_of (os_indexes os) i = Some d" "txn_active w t" "q \<noteq> QNone"
  shows "native_read op t s (Some i) q (snd (new_promise w)) = Inr (place_request t (NRead op s (Some i) q) (snd (new_promise w)))"
    and "native_read_counted RGetAllKeys t s (Some i) q (Some 1) (snd (new_promise w)) =
           Inr (place_request t (NRead (RGetAllKeys 1) s (Some i) q) (snd (new_promise w)))"
  using assms by (simp_all add: native_read_def native_read_counted_def convert_count_def)

section \<open>The wrappers' single reads are the list reads of one\<close>

text \<open>
  C29. On an active transaction with no other pending request, for any key or range
  \<open>q\<close>: \<open>getAll(q, 1)\<close> of the object-store wrapper resolves with a list \<open>vs\<close> of
  at most one value, and \<open>get(q)\<close> resolves with its first element, or with
  \<open>undefined\<close> when it is empty.
\<close>

theorem store_get_is_getAll_one:
  assumes txn: "txn_at w t = Some tx" "tx_state tx = TxActive" "tx_pending tx = []"
    and st: "store_of w t s = Some os" and q: "q \<noteq> QNone"
  shows "\<exists>vs. w_proms (run_request t (snd (store_getAll (PromisedIndexedDbObjectStore (StoreHandle t s)) q (Some 1) w)))
                 ! length (w_proms w) = Fulfilled (PJs (JList vs)) \<and> length vs \<le> 1 \<and>
              w_proms (run_request t (snd (store_get (PromisedIndexedDbObjectStore (StoreHandle t s)) q w)))
                 ! length (w_proms w) = Fulfilled (PJs (case vs of [] \<Rightarrow> JUndefined | v # _ \<Rightarrow> v))"
proof -
  have act: "txn_active w t" using txn by (simp add: txn_active_def)
  note pl = store_read_placed [OF st act q]
  note ex = exec_store_read [OF st]
  obtain vs where vs: "exec_read (RGetAll 1) q (store_entries os) = JList vs" "length vs \<le> 1"
    "exec_read RGet q (store_entries os) = (case vs of [] \<Rightarrow> JUndefined | v # _ \<Rightarrow> v)"
    using exec_read_get_getAll by blast
  have "w_proms (run_request t (snd (store_getAll (PromisedIndexedDbObjectStore (StoreHandle t s)) q (Some 1) w)))
          ! length (w_proms w) = Fulfilled (PJs (JList vs))"
    using read_run_result [where native = "native_read_counted RGetAll t s None q (Some 1)", OF txn(1,3) pl(2) ex]
    unfolding store_getAll_promisify vs(1) .
  moreover have "w_proms (run_request t (snd (store_get (PromisedIndexedDbObjectStore (StoreHandle t s)) q w)))
          ! length (w_proms w) = Fulfilled (PJs (case vs of [] \<Rightarrow> JUndefined | v # _ \<Rightarrow> v))"
    using read_run_result [where native = "native_read RGet t s None q", OF txn(1,3) pl(1) ex]
    unfolding store_get_promisify vs(3) .
  ultimately show ?thesis
    using vs(2) by blast
qed

theorem store_get_is_getAll_one_witness:
  "txn_at demo_world 0 = Some demo_txn \<and> tx_state demo_txn = TxActive \<and> tx_pending demo_txn = [] \<and>
   store_of demo_world 0 ''items'' = Some items_store \<and> QKey (KNum 1) \<noteq> QNone \<and>
   (\<exists>vs. w_proms (run_request 0 (snd (store_getAll (PromisedIndexedDbObjectStore (StoreHandle 0 ''items''))
             (QKey (KNum 1)) (Some 1) demo_world))) ! length (w_proms demo_world) = Fulfilled (PJs (JList vs)) \<and>
          length vs \<le> 1 \<and>
          w_proms (run_request 0 (snd (store_get (PromisedIndexedDbObjectStore (StoreHandle 0 ''items''))
             (QKey (KNum 1)) demo_world))) ! length (w_proms demo_world) =
            Fulfilled (PJs (case vs of [] \<Rightarrow> JUndefined | v # _ \<Rightarrow> v)))"
proof -
  have h: "txn_at demo_world 0 = Some demo_txn" "tx_state demo_txn = TxActive" "tx_pending demo_txn = []"
    "store_of demo_world 0 ''items'' = Some items_store" "QKey (KNum 1) \<noteq> QNone"
    by code_simp+
  show ?thesis
    by (intro conjI h store_get_is_getAll_one [OF h])
qed

text \<open>
  C30. The same for the index wrapper's keys: on an active transaction with no other
  pending request, \<open>getAllKeys(q, 1)\<close> resolves with at most one primary key, and
  \<open>getKey(q)\<close> with that key, or \<open>undefined\<close> when there is none.
\<close>

theorem index_getKey_is_getAllKeys_one:
  assumes txn: "txn_at w t = Some tx" "tx_state tx = TxActive" "tx_pending tx = []"
    and st: "store_of w t s = Some os" "map_of (os_indexes os) i = Some d" and q: "q \<noteq> QNone"
  shows "\<exists>ks. w_proms (run_request t (snd (index_getAllKeys (PromisedIndexedDbIndex (IndexHandle t s i)) q (Some 1) w)))
                 ! length (w_proms w) = Fulfilled (PJs (JList ks)) \<and> length ks \<le> 1 \<and>
              w_proms (run_request t (snd (index_getKey (PromisedIndexedDbIndex (IndexHandle t s i)) q w)))
                 ! length (w_proms w) = Fulfilled (PJs (case ks of [] \<Rightarrow> JUndefined | k # _ \<Rightarrow> k))"
proof -
  have act: "txn_active w t" using txn by (simp add: txn_active_def)
  note pl = index_read_placed [OF st act q]
  note ex = exec_index_read [OF st]
  obtain ks where ks: "exec_read (RGetAllKeys 1) q (index_entries d os) = JList ks" "length ks \<le> 1"
    "exec_read RGetKey q (index_entries d os) = (case ks of [] \<Rightarrow> JUndefined | k # _ \<Rightarrow> k)"
    using exec_read_getKey_getAllKeys by blast
  have calls: "index_getAllKeys (PromisedIndexedDbIndex (IndexHandle t s i)) q (Some 1) =
      promisify (idiom_success False) (native_read_counted RGetAllKeys t s (Some i) q (Some 1))"
    "index_getKey (PromisedIndexedDbIndex (IndexHandle t s i)) q =
      promisify (idiom_success False) (native_read RGetKey t s (Some i) q)"
    using index_call_promisify [of t s i "IGetAllKeys q (Some 1)"] index_call_promisify [of t s i "IGetKey q"]
    by simp_all
  have "w_proms (run_request t (snd (index_getAllKeys (PromisedIndexedDbIndex (IndexHandle t s i)) q (Some 1) w)))
          ! length (w_proms w) = Fulfilled (PJs (JList ks))"
    using read_run_result [where native = "native_read_counted RGetAllKeys t s (Some i) q (Some 1)", OF txn(1,3) pl(2) ex]
    unfolding calls(1) ks(1) .
  moreover have "w_proms (run_request t (snd (index_getKey (PromisedIndexedDbIndex (IndexHandle t s i)) q w)))
          ! length (w_proms w) = Fulfilled (PJs (case ks of [] \<Rightarrow> JUndefined | k # _ \<Rightarrow> k))"
    using read_run_result [where native = "native_read RGetKey t s (Some i) q", OF txn(1,3) pl(1) ex]
    unfolding calls(2) ks(3) .
  ultimately show ?thesis
    using ks(2) by blast
qed

theorem index_getKey_is_getAllKeys_one_witness:
  "txn_at demo_world 0 = Some demo_txn \<and> tx_state demo_txn = TxActive \<and> tx_pending demo_txn = [] \<and>
   store_of demo_world 0 ''people'' = Some people_store \<and>
   map_of (os_indexes people_store) ''by_name'' = Some by_name \<and> QKey (KStr ''bob'') \<noteq> QNone \<and>
   (\<exists>ks. w_proms (run_request 0 (snd (index_getAllKeys (PromisedIndexedDbIndex (IndexHandle 0 ''people'' ''by_name''))
             (QKey (KStr ''bob'')) (Some 1) demo_world))) ! length (w_proms demo_world) = Fulfilled (PJs (JList ks)) \<and>
          length ks \<le> 1 \<and>
          w_proms (run_request 0 (snd (index_getKey (PromisedIndexedDbIndex (IndexHandle 0 ''people'' ''by_name''))
             (QKey (KStr ''bob'')) demo_world))) ! length (w_proms demo_world) =
            Fulfilled (PJs (case ks of [] \<Rightarrow> JUndefined | k # _ \<Rightarrow> k)))"
proof -
  have h: "txn_at demo_world 0 = Some demo_txn" "tx_state demo_txn = TxActive" "tx_pending demo_txn = []"
    "store_of demo_world 0 ''people'' = Some people_store"
    "map_of (os_indexes people_store) ''by_name'' = Some by_name" "QKey (KStr ''bob'') \<noteq> QNone"
    by code_simp+
  show ?thesis
    by (intro conjI h index_getKey_is_getAllKeys_one [OF h])
qed

end
