(* ===== verification/Ordering.thy ===== *)
theory Ordering
  imports Liveness
begin

text \<open>
  Order of settlement within one transaction. The host runs a transaction's requests
  first to last; the wrapper's listeners on a request touch only that request's
  promise. So running the first request settles its promise and no later one, except
  when its error aborts the transaction: then every later promise is rejected at once,
  and the request list is empty.
\<close>

section \<open>The listeners of one idiom request touch one promise\<close>

lemma fire_idiom_other:
  assumes "idiom_req w r p" "p' \<noteq> p" "e = ReqSuccess \<or> e = ReqError"
  shows "w_proms (fire_request e r o' n w) ! p' = w_proms w ! p'"
proof -
  obtain u where rq: "req_at w r = Some (w_reqs w ! r)" "rq_listeners (w_reqs w ! r) = idiom_listeners u p r"
    using assms(1) by (rule idiom_req_at)
  have "fire_request e r o' n w = run_handler r o' n (if e = ReqSuccess then idiom_success u p r else RejectEvent p) w"
    using assms(3) by (auto simp: fire_request_listeners [OF rq(1)] rq(2) idiom_listeners_def)
  then show ?thesis
    using assms(2)
    by (cases u) (auto simp: idiom_success_def resolve_promise_def reject_promise_def req_result_def
        split: option.split sum.split)
qed

lemma fire_error_other:
  assumes "idiom_req w r p" "p' \<noteq> p"
  shows "w_proms (fst (fire_error t r e w)) ! p' = w_proms w ! p'"
proof -
  have "idiom_req (set_result r (Inl e) w) r p"
    using assms(1) by (rule idiom_req_frame [rotated 2]) (simp_all add: set_result_queue proms_mono_set_result)
  then show ?thesis
    using fire_idiom_other [of "set_result r (Inl e) w" r p p' ReqError 0 None] assms(2)
    by (simp add: fire_error_def)
qed

section \<open>Running the first request\<close>

lemma ordering_success_branch:
  assumes j1: "idiom_req W1 r1 p1" and ne: "p2 \<noteq> p1" and q2: "w_proms W1 ! p2 = Pending"
    and rq: "req_at W1 r1 = Some rq" and ex: "exec_native t (rq_op rq) W1 = Inr (v, w2)"
  defines "W \<equiv> fire_request ReqSuccess r1 0 None (set_result r1 (Inr v) w2)"
  shows "settled W p1 \<and> w_proms W ! p2 = Pending \<and> pending_of W t = pending_of W1 t"
proof -
  define W3 where "W3 = set_result r1 (Inr v) w2"
  note eq = exec_native_queue [OF ex]
  have i3: "idiom_req W3 r1 p1"
    by (rule idiom_req_frame [OF _ _ j1])
       (simp_all add: W3_def set_result_queue eq proms_mono_trans [OF eq(4) proms_mono_set_result])
  have "req_at w2 r1 = Some rq" using rq eq(3) req_at_frame [of w2 W1] by simp
  then have "req_result W3 r1 = Some (Inr v)"
    by (simp add: W3_def req_result_def req_at_set_result)
  then have "settled W p1"
    using fire_idiom_success_settles [OF i3] by (simp add: W_def W3_def)
  moreover have "w_proms W ! p2 = Pending"
    using fire_idiom_other [OF i3 ne, of ReqSuccess 0 None] exec_native_frame [OF ex] q2
    by (simp add: W_def W3_def set_result_def map_req_def)
  moreover have "pending_of W t = pending_of W1 t"
    by (simp add: W_def eq(1))
  ultimately show ?thesis by simp
qed

lemma ordering_error_branch:
  assumes j1: "idiom_req W1 r1 p1" and j2: "idiom_req W1 r2 p2" and ne: "p2 \<noteq> p1"
    and q2: "w_proms W1 ! p2 = Pending" and pw: "pending_of W1 t = rs" and r2: "r2 \<in> set rs"
    and fe: "fire_error t r1 e W1 = (w2, c)"
  defines "W \<equiv> if c then w2 else abort_txn t w2"
  shows "settled W p1 \<and> (settled W p2 \<longleftrightarrow> pending_of W t = [])"
proof -
  have s1: "settled w2 p1" using fire_error_settles [OF j1, of t e] fe by simp
  have p2': "w_proms w2 ! p2 = Pending" using fire_error_other [OF j1 ne, of t e] fe q2 by simp
  have pw2: "pending_of w2 t = rs" using pending_of_queue(3) [of t r1 e W1] fe pw by simp
  show ?thesis
  proof (cases c)
    case True
    then show ?thesis using s1 p2' pw2 r2 by (auto simp: W_def settled_def)
  next
    case False
    have k2: "idiom_req w2 r2 p2"
      using idiom_req_frame [OF fire_error_queue(1) proms_mono_fire_error j2, of t r1 e] fe by simp
    have "settled (abort_txn t w2) p2"
      by (rule abort_txn_settles [OF _ k2]) (simp add: pw2 r2)
    then show ?thesis
      using False settled_mono [OF proms_mono_abort_txn s1] by (simp add: W_def abort_txn_queue(2))
  qed
qed

text \<open>
  C35. First in, first settled: let \<open>r1\<close> be the first request on transaction
  \<open>t\<close> and \<open>r2\<close> a later one, both placed by wrapper methods, with promises \<open>p1\<close>
  and \<open>p2\<close>, \<open>p2\<close> pending. After the host ran \<open>r1\<close>, \<open>p1\<close> is settled, and
  \<open>p2\<close> is settled exactly when the run aborted the transaction and so emptied its
  request list; otherwise \<open>p2\<close> is still pending and \<open>r2\<close> still waits.
\<close>

theorem first_request_settles_first:
  assumes pend: "pending_of w t = r1 # rs" and r2: "r2 \<in> set rs"
    and i1: "idiom_req w r1 p1" and i2: "idiom_req w r2 p2" and ne: "p2 \<noteq> p1"
    and p2: "w_proms w ! p2 = Pending"
  shows "settled (run_request t w) p1 \<and>
         (settled (run_request t w) p2 \<longleftrightarrow> pending_of (run_request t w) t = [])"
proof -
  define W1 where "W1 = map_txn t (\<lambda>tx. tx\<lparr>tx_pending := rs\<rparr>) w"
  note nx = run_request_next [OF pend, folded W1_def]
  have j1: "idiom_req W1 r1 p1" by (rule idiom_req_frame [OF nx(3) proms_mono_frame [OF nx(4)] i1])
  have j2: "idiom_req W1 r2 p2" by (rule idiom_req_frame [OF nx(3) proms_mono_frame [OF nx(4)] i2])
  have q2: "w_proms W1 ! p2 = Pending" using p2 nx(4) by simp
  obtain rq where rq: "req_at W1 r1 = Some rq"
    using j1 by (auto simp: idiom_req_def req_at_def)
  show ?thesis
  proof (cases "exec_native t (rq_op rq) W1")
    case (Inr vw)
    then obtain v w2 where ex: "exec_native t (rq_op rq) W1 = Inr (v, w2)" by (cases vw) auto
    have "run_request t w = fire_request ReqSuccess r1 0 None (set_result r1 (Inr v) w2)"
      by (simp add: nx(1) rq ex)
    then show ?thesis
      using ordering_success_branch [OF j1 ne q2 rq ex] nx(2) r2 by (auto simp: settled_def)
  next
    case (Inl e)
    obtain w2 c where fe: "fire_error t r1 e W1 = (w2, c)" by fastforce
    have "run_request t w = (if c then w2 else abort_txn t w2)"
      by (simp add: nx(1) rq Inl fe)
    then show ?thesis
      using ordering_error_branch [OF j1 j2 ne q2 nx(2) r2 fe] by simp
  qed
qed

theorem first_request_settles_first_witness:
  "pending_of (snd (store_call (PromisedIndexedDbObjectStore (StoreHandle 0 ''items'')) (SGet (QKey (KNum 1)))
      (snd (store_call (PromisedIndexedDbObjectStore (StoreHandle 0 ''items'')) (SAdd cup (Some (KNum 1))) demo_world)))) 0
     = 0 # [1] \<and>
   1 \<in> set [1::nat] \<and>
   idiom_req (snd (store_call (PromisedIndexedDbObjectStore (StoreHandle 0 ''items'')) (SGet (QKey (KNum 1)))
      (snd (store_call (PromisedIndexedDbObjectStore (StoreHandle 0 ''items'')) (SAdd cup (Some (KNum 1))) demo_world)))) 0 0 \<and>
   idiom_req (snd (store_call (PromisedIndexedDbObjectStore (StoreHandle 0 ''items'')) (SGet (QKey (KNum 1)))
      (snd (store_call (PromisedIndexedDbObjectStore (StoreHandle 0 ''items'')) (SAdd cup (Some (KNum 1))) demo_world)))) 1 1 \<and>
   (1::nat) \<noteq> 0 \<and>
   w_proms (snd (store_call (PromisedIndexedDbObjectStore (StoreHandle 0 ''items'')) (SGet (QKey (KNum 1)))
      (snd (store_call (PromisedIndexedDbObjectStore (StoreHandle 0 ''items'')) (SAdd cup (Some (KNum 1))) demo_world)))) ! 1
     = Pending \<and>
   settled (run_request 0 (snd (store_call (PromisedIndexedDbObjectStore (StoreHandle 0 ''items'')) (SGet (QKey (KNum 1)))
      (snd (store_call (PromisedIndexedDbObjectStore (StoreHandle 0 ''items'')) (SAdd cup (Some (KNum 1))) demo_world))))) 0 \<and>
   (settled (run_request 0 (snd (store_call (PromisedIndexedDbObjectStore (StoreHandle 0 ''items'')) (SGet (QKey (KNum 1)))
      (snd (store_call (PromisedIndexedDbObjectStore (StoreHandle 0 ''items'')) (SAdd cup (Some (KNum 1))) demo_world))))) 1 \<longleftrightarrow>
    pending_of (run_request 0 (snd (store_call (PromisedIndexedDbObjectStore (StoreHandle 0 ''items'')) (SGet (QKey (KNum 1)))
      (snd (store_call (PromisedIndexedDbObjectStore (StoreHandle 0 ''items'')) (SAdd cup (Some (KNum 1))) demo_world))))) 0 = [])"
proof -
  have h: "pending_of (snd (store_call (PromisedIndexedDbObjectStore (StoreHandle 0 ''items'')) (SGet (QKey (KNum 1)))
      (snd (store_call (PromisedIndexedDbObjectStore (StoreHandle 0 ''items'')) (SAdd cup (Some (KNum 1))) demo_world)))) 0
     = 0 # [1]"
    "1 \<in> set [1::nat]"
    "idiom_req (snd (store_call (PromisedIndexedDbObjectStore (StoreHandle 0 ''items'')) (SGet (QKey (KNum 1)))
      (snd (store_call (PromisedIndexedDbObjectStore (StoreHandle 0 ''items'')) (SAdd cup (Some (KNum 1))) demo_world)))) 0 0"
    "idiom_req (snd (store_call (PromisedIndexedDbObjectStore (StoreHandle 0 ''items'')) (SGet (QKey (KNum 1)))
      (snd (store_call (PromisedIndexedDbObjectStore (StoreHandle 0 ''items'')) (SAdd cup (Some (KNum 1))) demo_world)))) 1 1"
    "(1::nat) \<noteq> 0"
    "w_proms (snd (store_call (PromisedIndexedDbObjectStore (StoreHandle 0 ''items'')) (SGet (QKey (KNum 1)))
      (snd (store_call (PromisedIndexedDbObjectStore (StoreHandle 0 ''items'')) (SAdd cup (Some (KNum 1))) demo_world)))) ! 1
     = Pending"
    by code_simp+
  show ?thesis
    using first_request_settles_first [OF h] h by simp
qed

end
