(* ===== verification/Navigation.thy ===== *)
theory Navigation
  imports Database_Wrapper
begin

text \<open>
  Moving between the wrapper objects: every wrapper holds only its native handle, and
  each navigation getter or method wraps the native object anew
  (\<open>index.objectStore\<close>, \<open>store.index(name)\<close>, \<open>store.transaction\<close>,
  \<open>transaction.objectStore(name)\<close>, \<open>transaction.db\<close>). Going down and back up
  gives back a wrapper of the same native object, with the attributes the host has.
\<close>

section \<open>From a store to one of its indexes and back\<close>

lemma index_def_at_store:
  "store_of w t s = Some os \<Longrightarrow> index_def_at w t s i = map_of (os_indexes os) i"
  by (simp add: index_def_at_def)

text \<open>
  C33. \<open>store.index(i)\<close> on a store of a transaction that is not finished either
  throws \<open>NotFoundError\<close>, when the store has no index \<open>i\<close>, or returns an index
  wrapper whose \<open>objectStore\<close> is the same store wrapper, whose \<open>name\<close> is \<open>i\<close>, and
  whose \<open>keyPath\<close>, \<open>unique\<close> and \<open>multiEntry\<close> are those of the store's index.
\<close>

theorem store_index_roundtrip:
  assumes st: "store_of w t s = Some os" and live: "\<not> txn_finished w t"
  shows "case store_index (PromisedIndexedDbObjectStore (StoreHandle t s)) i w of
           Inl e \<Rightarrow> e = NotFoundError \<and> map_of (os_indexes os) i = None
         | Inr ix \<Rightarrow>
             index_objectStore ix = PromisedIndexedDbObjectStore (StoreHandle t s) \<and> index_name ix = i \<and>
             (\<exists>d. map_of (os_indexes os) i = Some d \<and> index_keyPath ix w = Some (ix_keyPath d) \<and>
                  index_unique ix w = Some (ix_unique d) \<and> index_multiEntry ix w = Some (ix_multiEntry d))"
  using st live
  by (cases "map_of (os_indexes os) i")
     (simp_all add: store_index_def native_index_def index_def_at_store index_objectStore_def index_name_def
      index_keyPath_def index_unique_def index_multiEntry_def)

theorem store_index_roundtrip_witness:
  "store_of demo_world 0 ''people'' = Some people_store \<and> \<not> txn_finished demo_world 0 \<and>
   (case store_index (PromisedIndexedDbObjectStore (StoreHandle 0 ''people'')) ''by_name'' demo_world of
      Inl e \<Rightarrow> e = NotFoundError \<and> map_of (os_indexes people_store) ''by_name'' = None
    | Inr ix \<Rightarrow>
        index_objectStore ix = PromisedIndexedDbObjectStore (StoreHandle 0 ''people'') \<and> index_name ix = ''by_name'' \<and>
        (\<exists>d. map_of (os_indexes people_store) ''by_name'' = Some d \<and> index_keyPath ix demo_world = Some (ix_keyPath d) \<and>
             index_unique ix demo_world = Some (ix_unique d) \<and> index_multiEntry ix demo_world = Some (ix_multiEntry d)))"
proof -
  have h: "store_of demo_world 0 ''people'' = Some people_store" "\<not> txn_finished demo_world 0"
    by code_simp+
  show ?thesis
    by (intro conjI h store_index_roundtrip [OF h])
qed

section \<open>From a connection to a transaction, one of its stores, and back\<close>

text \<open>
  C34. On an open connection, \<open>db.transaction(names, mode)\<close> with store names of
  the database, then \<open>objectStore(s)\<close> for one of the names: both succeed, the store
  wrapper's \<open>name\<close> is \<open>s\<close>, its \<open>transaction\<close> is the transaction wrapper
  \<open>transaction()\<close> returned, and that transaction's \<open>db\<close> wraps the connection.
\<close>

theorem transaction_store_roundtrip:
  assumes cs: "conn_stores w c = Some ss" and open_: "\<not> cn_closed (w_conns w ! c)"
    and mode: "mode \<noteq> Some VersionChange"
    and names: "list_all (\<lambda>n. map_of ss n \<noteq> None) names" and s: "s \<in> set names"
  shows "case db_transaction (PromisedIndexedDb c) names mode w of
           Inl e \<Rightarrow> False
         | Inr (x, w') \<Rightarrow>
             (case txn_objectStore x s w' of
                Inl e \<Rightarrow> False
              | Inr st \<Rightarrow> store_name st = s \<and> store_transaction st = x \<and>
                          txn_db (store_transaction st) w' = Some (PromisedIndexedDb c))"
proof -
  have ne: "names \<noteq> []" using s by auto
  let ?w' = "w\<lparr>w_txns := w_txns w @ [new_txn c names mode]\<rparr>"
  have dt: "db_transaction (PromisedIndexedDb c) names mode w =
              Inr (PromisedIndexedDbTransaction (length (w_txns w)), ?w')"
    using native_transaction_ok [OF cs open_ ne names mode] by (simp add: db_transaction_def)
  have tx: "txn_at ?w' (length (w_txns w)) = Some (new_txn c names mode)"
    by (rule new_txn_stores(1) [OF cs])
  have os: "txn_objectStore (PromisedIndexedDbTransaction (length (w_txns w))) s ?w' =
              Inr (PromisedIndexedDbObjectStore (StoreHandle (length (w_txns w)) s))"
    using tx s by (simp add: txn_objectStore_def native_objectStore_def txn_finished_def new_txn_def)
  have "tx_conn (new_txn c names mode) = c" by (simp add: new_txn_def)
  then show ?thesis
    using tx by (simp add: dt os store_name_def store_transaction_def txn_db_def)
qed

theorem transaction_store_roundtrip_witness:
  "conn_stores demo_world 0 = Some shop_stores \<and> \<not> cn_closed (w_conns demo_world ! 0) \<and>
   Some ReadWrite \<noteq> Some VersionChange \<and>
   list_all (\<lambda>n. map_of shop_stores n \<noteq> None) [''items'', ''people''] \<and> ''people'' \<in> set [''items'', ''people''] \<and>
   (case db_transaction (PromisedIndexedDb 0) [''items'', ''people''] (Some ReadWrite) demo_world of
      Inl e \<Rightarrow> False
    | Inr (x, w') \<Rightarrow>
        (case txn_objectStore x ''people'' w' of
           Inl e \<Rightarrow> False
         | Inr st \<Rightarrow> store_name st = ''people'' \<and> store_transaction st = x \<and>
                     txn_db (store_transaction st) w' = Some (PromisedIndexedDb 0)))"
proof -
  have h: "conn_stores demo_world 0 = Some shop_stores" "\<not> cn_closed (w_conns demo_world ! 0)"
    "Some ReadWrite \<noteq> Some VersionChange"
    "list_all (\<lambda>n. map_of shop_stores n \<noteq> None) [''items'', ''people'']" "''people'' \<in> set [''items'', ''people'']"
    by code_simp+
  show ?thesis
    by (intro conjI h transaction_store_roundtrip [OF h])
qed

end
