(* ===== verification/Boundaries.thy ===== *)
theory Boundaries
  imports Open_Database
begin

text \<open>
  The numeric arguments the wrappers pass straight to the host, at their bounds: the
  \<open>count\<close> of \<open>getAll\<close>/\<open>getAllKeys\<close> (an \<open>[EnforceRange] unsigned long\<close>,
  \<open>0 .. 2^32 - 1\<close>) and the \<open>version\<close> of \<open>openDatabase\<close> (an
  \<open>[EnforceRange] unsigned long long\<close> that must not be 0; numbers are exact up
  to \<open>2^53\<close>). The host throws \<open>TypeError\<close> outside the range; since the native
  call runs inside the promise executor, the wrapper's promise is rejected with it and
  no request is placed.
\<close>

section \<open>The promise of the idiom right after the call\<close>

lemma promisify_new_state:
  assumes "\<And>r w2. native (snd (new_promise w)) = Inr (r, w2) \<Longrightarrow> w_proms w2 = w_proms (snd (new_promise w))"
  shows "w_proms (snd (promisify h native w)) ! length (w_proms w) =
           (case native (snd (new_promise w)) of Inl e \<Rightarrow> Rejected (RejException e) | Inr _ \<Rightarrow> Pending)"
proof (cases "native (snd (new_promise w))")
  case (Inl e)
  then show ?thesis by (simp add: promisify_Inl reject_promise_def new_promise_eq)
next
  case (Inr rw)
  then obtain r w2 where nat: "native (snd (new_promise w)) = Inr (r, w2)" by (cases rw) auto
  then show ?thesis
    using assms [OF nat] by (simp add: promisify_Inr new_promise_eq add_req_listener_def map_req_def)
qed

lemma native_read_error: "native_read op t s ix q w = Inl e \<Longrightarrow> e \<noteq> TypeError"
  by (auto simp: native_read_def split: option.splits if_splits)

lemma native_read_counted_cases:
  "native_read_counted mk t s ix q (Some c) w =
     (if c < 0 \<or> 2 ^ 32 \<le> c then Inl TypeError else native_read (mk (nat c)) t s ix q w)"
  by (auto simp: native_read_counted_def convert_count_def)

lemma native_read_counted_proms:
  "native_read_counted mk t s ix q c w = Inr (r, w2) \<Longrightarrow> w_proms w2 = w_proms w"
  by (auto dest!: native_read_counted_placed simp: place_request_eq)

section \<open>The count of getAll\<close>

text \<open>
  C36. For any world, store and query: the promise of \<open>getAll(query, count)\<close> on the
  object-store wrapper is rejected with \<open>TypeError\<close> right away exactly when
  \<open>count\<close> is negative or at least \<open>2^32\<close>; then no request is placed. At
  \<open>0\<close> and at \<open>2^32 - 1\<close> the call goes through to the host.
\<close>

theorem store_getAll_count_range:
  "(w_proms (snd (store_getAll (PromisedIndexedDbObjectStore (StoreHandle t s)) q (Some c) w)) ! length (w_proms w) =
      Rejected (RejException TypeError) \<longleftrightarrow> c < 0 \<or> 2 ^ 32 \<le> c) \<and>
   (c < 0 \<or> 2 ^ 32 \<le> c \<longrightarrow>
      w_reqs (snd (store_getAll (PromisedIndexedDbObjectStore (StoreHandle t s)) q (Some c) w)) = w_reqs w)"
proof -
  let ?nat = "native_read_counted RGetAll t s None q (Some c)"
  have st: "w_proms (snd (promisify (idiom_success False) ?nat w)) ! length (w_proms w) =
              (case ?nat (snd (new_promise w)) of Inl e \<Rightarrow> Rejected (RejException e) | Inr _ \<Rightarrow> Pending)"
    by (rule promisify_new_state) (rule native_read_counted_proms)
  show ?thesis
  proof (cases "c < 0 \<or> 2 ^ 32 \<le> c")
    case True
    then have "?nat (snd (new_promise w)) = Inl TypeError" by (simp add: native_read_counted_cases)
    then show ?thesis
      using True st by (simp add: store_getAll_promisify promisify_Inl reject_promise_def new_promise_eq)
  next
    case False
    then have "?nat (snd (new_promise w)) = native_read (RGetAll (nat c)) t s None q (snd (new_promise w))"
      by (simp add: native_read_counted_cases)
    then show ?thesis
      using False st native_read_error [of "RGetAll (nat c)" t s None q "snd (new_promise w)"]
      by (auto simp: store_getAll_promisify split: sum.splits)
  qed
qed

theorem store_getAll_count_range_witness:
  "w_proms (snd (store_getAll (PromisedIndexedDbObjectStore (StoreHandle 0 ''items'')) QNone (Some (2 ^ 32)) demo_world))
      ! length (w_proms demo_world) = Rejected (RejException TypeError) \<and>
   w_reqs (snd (store_getAll (PromisedIndexedDbObjectStore (StoreHandle 0 ''items'')) QNone (Some (2 ^ 32)) demo_world))
      = w_reqs demo_world"
proof -
  have h: "(2 ^ 32 :: int) < 0 \<or> 2 ^ 32 \<le> (2 ^ 32 :: int)" by simp
  note t = store_getAll_count_range [of 0 "''items''" QNone "2 ^ 32" demo_world]
  show ?thesis
    by (rule conjI [OF iffD2 [OF conjunct1 [OF t] h] mp [OF conjunct2 [OF t] h]])
qed

section \<open>The version of openDatabase\<close>

text \<open>
  C37. For any world, name, migration and blocked callback: the promise of
  \<open>openDatabase(name, version, ...)\<close> is rejected with \<open>TypeError\<close> right away
  exactly when \<open>version\<close> is below 1 or at least \<open>2^53\<close>, and then no open
  request is placed; versions \<open>1\<close> and \<open>2^53 - 1\<close> place the open request and
  leave the promise pending.
\<close>

theorem openDatabase_version_range:
  "(w_proms (snd (openDatabase n v m b w)) ! length (w_proms w) = Rejected (RejException TypeError) \<longleftrightarrow>
      v < 1 \<or> 2 ^ 53 \<le> v) \<and>
   (v < 1 \<or> 2 ^ 53 \<le> v \<longrightarrow> w_reqs (snd (openDatabase n v m b w)) = w_reqs w) \<and>
   (1 \<le> v \<and> v < 2 ^ 53 \<longrightarrow> w_proms (snd (openDatabase n v m b w)) ! length (w_proms w) = Pending \<and>
      length (w_reqs (snd (openDatabase n v m b w))) = Suc (length (w_reqs w)))"
proof (cases "1 \<le> v \<and> v < 2 ^ 53")
  case True
  then have "w_proms (snd (openDatabase n v m b w)) ! length (w_proms w) = Pending"
    "length (w_reqs (snd (openDatabase n v m b w))) = Suc (length (w_reqs w))"
    using openDatabase_placed [of v n m b w] by simp_all
  then show ?thesis
    using True by simp
next
  case False
  then have "native_open n v (snd (new_promise w)) = Inl TypeError"
    by (auto simp: native_open_def)
  then have W: "snd (openDatabase n v m b w) = reject_promise (length (w_proms w)) (RejException TypeError) (snd (new_promise w))"
    by (simp add: openDatabase_def new_promise_def case_prod_beta alloc_def)
  have "w_proms (snd (openDatabase n v m b w)) ! length (w_proms w) = Rejected (RejException TypeError)"
    "w_reqs (snd (openDatabase n v m b w)) = w_reqs w"
    by (simp_all only: W) (simp_all add: reject_promise_def new_promise_eq)
  moreover have "v < 1 \<or> 2 ^ 53 \<le> v" using False by auto
  ultimately show ?thesis using False by simp
qed

theorem openDatabase_version_range_witness:
  "w_proms (snd (openDatabase ''shop'' 0 shop_migration None empty_world)) ! length (w_proms empty_world) =
      Rejected (RejException TypeError) \<and>
   w_reqs (snd (openDatabase ''shop'' 0 shop_migration None empty_world)) = w_reqs empty_world"
proof -
  have h: "(0::int) < 1 \<or> 2 ^ 53 \<le> (0::int)" by simp
  note t = openDatabase_version_range [of "''shop''" 0 shop_migration None empty_world]
  show ?thesis
    by (rule conjI [OF iffD2 [OF conjunct1 [OF t] h] mp [OF conjunct1 [OF conjunct2 [OF t]] h]])
qed

end
