(* ===== verification/Transaction_Lifecycle.thy ===== *)
theory Transaction_Lifecycle
  imports Database_Wrapper
begin

text \<open>
  The life cycle of a transaction as the wrapper exposes it: \<open>abort()\<close> and
  \<open>commit()\<close> of \<open>PromisedIndexedDbTransaction\<close> forward to the native methods,
  which throw synchronously (not through a promise) once the transaction has left the
  active state; \<open>objectStore(name)\<close> throws only once it has finished; and the
  store methods, whose native calls run inside the promise executor, reject with
  \<open>TransactionInactiveError\<close> as soon as the transaction is no longer active.
\<close>

section \<open>After abort\<close>

text \<open>
  C38. \<open>abort()\<close> on an active transaction with no pending request succeeds; after
  it, a second \<open>abort()\<close>, a \<open>commit()\<close> and \<open>objectStore(s)\<close> all throw
  \<open>InvalidStateError\<close>.
\<close>

theorem txn_after_abort:
  assumes txn: "txn_at w t = Some tx" "tx_state tx = TxActive" "tx_pending tx = []"
  shows "case txn_abort (PromisedIndexedDbTransaction t) w of
           Inl e \<Rightarrow> False
         | Inr w' \<Rightarrow> txn_abort (PromisedIndexedDbTransaction t) w' = Inl InvalidStateError \<and>
                    txn_commit (PromisedIndexedDbTransaction t) w' = Inl InvalidStateError \<and>
                    txn_objectStore (PromisedIndexedDbTransaction t) s w' = Inl InvalidStateError"
proof -
  have ab: "txn_abort (PromisedIndexedDbTransaction t) w = Inr (abort_txn t w)"
    using txn by (simp add: txn_abort_def native_abort_def)
  have st: "txn_at (abort_txn t w) t = Some (tx\<lparr>tx_state := TxAborted\<rparr>)"
    by (rule abort_txn_state [OF txn(1,3)])
  show ?thesis
    using st unfolding ab by (simp add: txn_abort_def native_abort_def txn_commit_def native_commit_def txn_active_def
        txn_objectStore_def native_objectStore_def txn_finished_def)
qed

theorem txn_after_abort_witness:
  "txn_at demo_world 0 = Some demo_txn \<and> tx_state demo_txn = TxActive \<and> tx_pending demo_txn = [] \<and>
   (case txn_abort (PromisedIndexedDbTransaction 0) demo_world of
      Inl e \<Rightarrow> False
    | Inr w' \<Rightarrow> txn_abort (PromisedIndexedDbTransaction 0) w' = Inl InvalidStateError \<and>
               txn_commit (PromisedIndexedDbTransaction 0) w' = Inl InvalidStateError \<and>
               txn_objectStore (PromisedIndexedDbTransaction 0) ''items'' w' = Inl InvalidStateError)"
proof -
  have h: "txn_at demo_world 0 = Some demo_txn" "tx_state demo_txn = TxActive" "tx_pending demo_txn = []"
    by code_simp+
  show ?thesis
    by (intro conjI h txn_after_abort [OF h])
qed

section \<open>After commit\<close>

text \<open>
  C39. \<open>commit()\<close> on an active transaction succeeds and leaves it committing; after
  it, \<open>abort()\<close> throws \<open>InvalidStateError\<close>, \<open>objectStore(s)\<close> for a store of
  its scope still returns the store wrapper, but a \<open>get\<close> on that store returns a
  promise already rejected with \<open>TransactionInactiveError\<close>.
\<close>

theorem txn_after_commit:
  assumes txn: "txn_at w t = Some tx" "tx_state tx = TxActive" "s \<in> set (tx_scope tx)"
    and st: "store_of w t s = Some os"
  shows "case txn_commit (PromisedIndexedDbTransaction t) w of
           Inl e \<Rightarrow> False
         | Inr w' \<Rightarrow> txn_abort (PromisedIndexedDbTransaction t) w' = Inl InvalidStateError \<and>
                    txn_objectStore (PromisedIndexedDbTransaction t) s w' =
                      Inr (PromisedIndexedDbObjectStore (StoreHandle t s)) \<and>
                    w_proms (snd (store_get (PromisedIndexedDbObjectStore (StoreHandle t s)) q w')) ! length (w_proms w')
                      = Rejected (RejException TransactionInactiveError)"
proof -
  let ?w' = "map_txn t (\<lambda>tx. tx\<lparr>tx_state := TxCommitting\<rparr>) w"
  have cm: "txn_commit (PromisedIndexedDbTransaction t) w = Inr ?w'"
    using txn by (simp add: txn_commit_def native_commit_def txn_active_def)
  have tx': "txn_at ?w' t = Some (tx\<lparr>tx_state := TxCommitting\<rparr>)"
    using txn by (simp add: txn_at_map_txn)
  have st': "store_of (snd (new_promise ?w')) t s = Some os"
    using st by (simp add: store_of_def txn_stores_map_txn)
  have "native_read RGet t s None q (snd (new_promise ?w')) = Inl TransactionInactiveError"
    using st' tx' by (simp add: native_read_def txn_active_def)
  then have "w_proms (snd (store_get (PromisedIndexedDbObjectStore (StoreHandle t s)) q ?w')) ! length (w_proms ?w')
               = Rejected (RejException TransactionInactiveError)"
    by (simp add: store_get_promisify promisify_Inl reject_promise_def new_promise_eq)
  then show ?thesis
    using tx' txn(3) unfolding cm by (simp add: txn_abort_def native_abort_def txn_objectStore_def native_objectStore_def
        txn_finished_def)
qed

theorem txn_after_commit_witness:
  "txn_at demo_world 0 = Some demo_txn \<and> tx_state demo_txn = TxActive \<and> ''items'' \<in> set (tx_scope demo_txn) \<and>
   store_of demo_world 0 ''items'' = Some items_store \<and>
   (case txn_commit (PromisedIndexedDbTransaction 0) demo_world of
      Inl e \<Rightarrow> False
    | Inr w' \<Rightarrow> txn_abort (PromisedIndexedDbTransaction 0) w' = Inl InvalidStateError \<and>
               txn_objectStore (PromisedIndexedDbTransaction 0) ''items'' w' =
                 Inr (PromisedIndexedDbObjectStore (StoreHandle 0 ''items'')) \<and>
               w_proms (snd (store_get (PromisedIndexedDbObjectStore (StoreHandle 0 ''items'')) (QKey (KNum 1)) w'))
                 ! length (w_proms w') = Rejected (RejException TransactionInactiveError))"
proof -
  have h: "txn_at demo_world 0 = Some demo_txn" "tx_state demo_txn = TxActive" "''items'' \<in> set (tx_scope demo_txn)"
    "store_of demo_world 0 ''items'' = Some items_store"
    by code_simp+
  show ?thesis
    by (intro conjI h txn_after_commit [OF h])
qed

end
