(* ===== verification/Connection_Close.thy ===== *)
theory Connection_Close
  imports Database_Wrapper
begin

text \<open>
  \<open>PromisedIndexedDb.close()\<close> (\<open>src/src/index.ts\<close>) is a fire-and-forget
  pass-through to \<open>IDBDatabase.close()\<close>. This theory shows what the wrapper's
  callers see afterwards: the getters read the same connection, new transactions are
  refused, and transactions already created keep their stores and requests.
\<close>

lemma native_close_views:
  "w_dbs (native_close c w) = w_dbs w" "w_txns (native_close c w) = w_txns w"
  "w_reqs (native_close c w) = w_reqs w" "w_proms (native_close c w) = w_proms w"
  "length (w_conns (native_close c w)) = length (w_conns w)"
  "i < length (w_conns w) \<Longrightarrow> cn_db (w_conns (native_close c w) ! i) = cn_db (w_conns w ! i)"
  by (simp_all add: native_close_def)

lemma native_close_conn_stores: "conn_stores (native_close c w) i = conn_stores w i"
  by (simp add: conn_stores_def native_close_views)

lemma native_close_store_of: "store_of (native_close c w) t s = store_of w t s"
  by (simp add: store_of_def txn_stores_def txn_at_def txn_db_name_def native_close_views)

text \<open>
  C40. After \<open>close()\<close> on a database wrapper, \<open>transaction(names, mode)\<close>
  throws \<open>InvalidStateError\<close> whatever the names and mode; \<open>name\<close>,
  \<open>version\<close> and \<open>objectStoreNames\<close> read as before; the transactions, requests
  and promises are untouched, and every transaction sees the same object stores (a
  transaction opened before \<open>close()\<close> runs on); a second \<open>close()\<close> changes
  nothing.
\<close>

theorem db_close_effects:
  "db_transaction x names mode (db_close x w) = Inl InvalidStateError \<and>
   db_name x (db_close x w) = db_name x w \<and>
   db_version_of x (db_close x w) = db_version_of x w \<and>
   db_objectStoreNames x (db_close x w) = db_objectStoreNames x w \<and>
   w_txns (db_close x w) = w_txns w \<and> w_reqs (db_close x w) = w_reqs w \<and>
   w_proms (db_close x w) = w_proms w \<and>
   store_of (db_close x w) t s = store_of w t s \<and>
   db_close x (db_close x w) = db_close x w"
proof (cases x)
  case (PromisedIndexedDb c)
  have tx: "db_transaction x names mode (db_close x w) = Inl InvalidStateError"
    by (simp add: PromisedIndexedDb db_transaction_def db_close_def native_transaction_def
                  native_close_conn_stores split: option.split)
       (simp add: native_close_def conn_stores_def)
  have idem: "db_close x (db_close x w) = db_close x w"
    by (simp add: PromisedIndexedDb db_close_def native_close_def upd_at_def)
  show ?thesis
    using tx idem
    by (simp add: PromisedIndexedDb db_close_def db_name_def db_version_of_def db_objectStoreNames_def
                  native_close_views native_close_conn_stores native_close_store_of)
qed

end
