(* ===== verification/Spec2Isabelle.thy ===== *)
theory Spec2Isabelle
  imports Promise_Invariant Read_Equivalence Ordering Navigation Boundaries Transaction_Lifecycle Connection_Close
begin

text \<open>
  \<^bold>\<open>A verification model of indexeddb-promise.\<close>

  The library (\<open>src/src/index.ts\<close>; \<open>src/index.js\<close> and \<open>src/lib/index.d.ts\<close>
  are generated from it) wraps the four IndexedDB handle types in classes
  \<open>PromisedIndexedDbIndex\<close>, \<open>PromisedIndexedDbObjectStore\<close>,
  \<open>PromisedIndexedDbTransaction\<close> and \<open>PromisedIndexedDb\<close>, and adds the entry
  point \<open>openDatabase\<close>. Every asynchronous method repeats one idiom: create a
  promise whose executor calls the native method and registers a \<open>success\<close>
  listener that resolves with \<open>req.result\<close> and an \<open>error\<close> listener that rejects
  with the event. The synchronous members pass through to the native handle.

  \<^bold>\<open>The world.\<close> The wrappers act on a state that holds the host's part (databases
  with their object stores, connections, transactions, requests) and the JavaScript
  part the wrappers create (promises), plus a log of the caller's callbacks the host
  ran (\<open>IDB_World.world\<close>). Heap objects are addressed by their index in their list;
  allocation appends (\<open>IDB_Prelude.alloc\<close>). A wrapper object is a constructor
  around the address or handle it owns, as the class holds its one private field.
  The listener closures of the source are the constructors of
  \<open>IDB_World.handler\<close>, run by \<open>Request_Promise.run_handler\<close>.

  \<^bold>\<open>Theories.\<close>
  \<^item> \<open>IDB_Prelude\<close>: addresses, allocation and in-place update of heap lists, facts
    on association lists.
  \<^item> \<open>IDB_Data\<close>: keys with the host's key order (a \<open>linorder\<close> instance), JavaScript
    values, key ranges and the query argument, the \<open>DOMException\<close> names.
  \<^item> \<open>IDB_Store\<close>: the host's object stores and indexes: records sorted by key,
    the read algorithms (\<open>exec_read\<close>: count, get, getAll, getAllKeys, getKey with
    the count limit), "store a record" with the key generator (capped at
    \<open>2^53\<close>), the no-overwrite flag of \<open>add\<close> and unique indexes; delete and clear.
  \<^item> \<open>IDB_World\<close>: the handle, wrapper, listener, request, transaction and world
    types; reading and updating the world, with frame lemmas.
  \<^item> \<open>Request_Promise\<close>: promises with one-shot settlement, request listeners and
    their dispatch in registration order, and the idiom itself,
    \<open>promisify on_success native\<close>: the executor of every asynchronous method
    (\<open>src/src/index.ts\<close> lines 29--37 and its copies).
  \<^item> \<open>IDB_Host\<close>: the host's methods the wrappers call: their synchronous checks
    (which exception each throws), placing a request on its transaction, running a
    transaction's first pending request (\<open>run_request\<close>: result, \<open>success\<close> or
    \<open>error\<close>, bubbling to the transaction, abort unless a listener cancelled the
    event), abort with rollback, commit, scheduling, transaction listeners and
    \<open>dispatchEvent\<close>. The lemmas \<open>promisify_settles_placed\<close>,
    \<open>promisify_run_ok\<close> and \<open>promisify_run_error_state\<close> give the idiom's
    outcome once the host has run its request; the method theorems rest on them.
  \<^item> \<open>IDB_Fixtures\<close>: a concrete database \<open>shop\<close> (stores \<open>items\<close> and
    \<open>people\<close>, a unique index \<open>by_name\<close>) and a read-write transaction over it, on
    which the witnesses evaluate.
  \<^item> \<open>Index_Wrapper\<close>, \<open>Store_Wrapper\<close>, \<open>Transaction_Wrapper\<close>,
    \<open>Database_Wrapper\<close>: one definition per getter and method of each class, named
    after it (\<open>index_getAllKeys\<close> is \<open>PromisedIndexedDbIndex.getAllKeys\<close>,
    \<open>store_add\<close> is \<open>PromisedIndexedDbObjectStore.add\<close>, ...), and for the two
    classes with asynchronous methods a datatype of calls with a dispatcher
    (\<open>index_call\<close>, \<open>store_call\<close>) over which the refinement theorems are stated.
  \<^item> \<open>Open_Database\<close>: \<open>openDatabase\<close> (lines 402--437): the executor calling
    \<open>indexedDB.open\<close> and registering the \<open>success\<close>, \<open>error\<close>,
    \<open>upgradeneeded\<close> and, when a callback is given, \<open>blocked\<close> listeners; and the
    host's processing of an open request: \<open>run_open\<close> (version check, creation of
    the database and the connection, the version-change transaction in which the
    migration runs, its commit or abort) and \<open>open_blocked\<close>.
  \<^item> \<open>System\<close>: the caller and the host interleaved, as the inductive relation
    \<open>step\<close> (every wrapper call that changes the world, every host step) and the
    worlds \<open>reachable\<close> from the empty one; the invariants are proved step by step
    with the collections \<open>proms_mono_intros\<close> and \<open>wf_intros\<close>.
  \<^item> \<open>Host_Queue\<close>: one transaction's request list seen from one promise of the
    idiom: the listeners of every request and the lists of the other transactions
    are left alone by every host operation (collection \<open>queue_frames\<close>); running
    the first request shortens the list (or empties it by aborting) and either
    settles the promise of a waiting request or keeps that request waiting
    (\<open>run_request_progress\<close>); an abort settles every waiting promise.
  \<^item> \<open>Liveness\<close>: \<open>run_all\<close>, the host running a transaction's list to the end,
    a \<open>function\<close> whose termination proof is the measure "length of the list";
    its run is a sequence of \<open>step\<close>s, and it settles the promise of every
    request of the idiom on the list.
  \<^item> \<open>Promise_Invariant\<close>: where every pending promise is: the promise of an
    idiom request still waiting on a transaction, or of an \<open>openDatabase\<close> call
    (\<open>promises_tracked\<close>). \<open>tracks_step\<close> states what a step must do to keep
    this; each operation's lemma is collected in \<open>tracks_intros\<close>, over the frame
    views \<open>queue_same\<close> (no new promise, listeners and request lists unchanged).
  \<^item> \<open>Ordering\<close>: running a transaction's first request settles its promise and
    no later one, unless the run aborted the transaction and emptied its list.
  \<^item> \<open>Navigation\<close>: the navigation getters and methods between wrappers
    (\<open>store.index(i).objectStore\<close>, \<open>db.transaction(..).objectStore(s).transaction\<close>)
    give back wrappers of the same native objects.
  \<^item> \<open>Boundaries\<close>: the numeric arguments at their bounds: \<open>count\<close> of
    \<open>getAll\<close> (\<open>0 .. 2^32 - 1\<close>) and \<open>version\<close> of \<open>openDatabase\<close>
    (\<open>1 .. 2^53 - 1\<close>); outside, the promise is rejected with \<open>TypeError\<close>.
  \<^item> \<open>Transaction_Lifecycle\<close>: \<open>abort()\<close>, \<open>commit()\<close> and
    \<open>objectStore()\<close> after an abort or a commit (synchronous
    \<open>InvalidStateError\<close>), and store methods on a committing transaction.
  \<^item> \<open>Connection_Close\<close>: \<open>close()\<close> of the database wrapper: later
    \<open>transaction()\<close> calls throw \<open>InvalidStateError\<close>, the getters and the
    transactions already created are unaffected, and closing twice is closing once.
  \<^item> \<open>Read_Equivalence\<close>: the single-record reads against the list reads:
    \<open>get(q)\<close> is the first element of \<open>getAll(q, 1)\<close> (or \<open>undefined\<close>),
    \<open>getKey(q)\<close> that of \<open>getAllKeys(q, 1)\<close>, through the wrappers.

  \<^bold>\<open>What is proved.\<close> For each wrapper class with promise-returning methods, a
  refinement theorem: the wrapper's promise settles exactly as the native request
  (fulfilled with its result, rejected with its error event) or is rejected with the
  native exception when the native call throws inside the executor
  (\<open>Store_Wrapper.store_call_settles_as_native\<close>,
  \<open>Index_Wrapper.index_call_settles_as_native\<close>). Functional properties of the
  store methods: read after write, \<open>add\<close> on an existing key (rejected, and the
  transaction aborted since the wrapper never cancels the error event), \<open>add\<close> on a
  fresh key, \<open>delete\<close> of a missing key, \<open>clear\<close> then \<open>getAll\<close>; the bounds of
  \<open>getAllKeys\<close> on an index, with a count of 0 meaning no limit; rollback of an
  aborted \<open>put\<close>; \<open>dispatchEvent\<close>'s result, listener registration, and
  \<open>transaction()\<close>'s errors and result. For \<open>openDatabase\<close>: a new database is
  created and migrated, a throwing migration aborts the upgrade and rejects, a
  blocked upgrade only calls the \<open>blocked\<close> callback, a lower version rejects; and
  the specification's \<open>shop\<close> scenario evaluates end to end (below). Over every
  interleaving of calls and host steps (\<open>System\<close>): a settled promise never
  changes, and every store of every reachable world stays sorted by key. Liveness
  (\<open>Liveness\<close>): the host's loop over a transaction's requests terminates, and
  the promise of every store and index method, in any world, is settled once that
  loop ran; from any world, a promise whose request waits on a transaction is
  settled after some sequence of steps; in every reachable world every pending
  promise is tracked, so every promise but that of an \<open>openDatabase\<close> call
  (whose request may stay blocked) is settled after some steps. Equivalences (\<open>Read_Equivalence\<close>):
  \<open>get\<close> of the store wrapper resolves as \<open>getAll\<close> with a count of 1 unwrapped,
  \<open>getKey\<close> of the index wrapper as \<open>getAllKeys\<close> with a count of 1. Ordering:
  first in, first settled within a transaction. Round trips of the navigation between
  wrappers; the bounds of \<open>count\<close> and \<open>version\<close>; the transaction's state
  machine as the wrapper exposes it (\<open>Transaction_Lifecycle\<close>); the effect of
  \<open>close()\<close> (\<open>Connection_Close\<close>). Each
  theorem with hypotheses has a witness on concrete worlds, evaluated by
  \<open>code_simp\<close>.

  \<^bold>\<open>Modelling choices.\<close> The host is not code of this repository: it is modelled
  after the IndexedDB specification, as far as the wrappers' behaviour depends on
  it. Keys are numbers and strings (no dates, binary keys or arrays as keys), key
  paths are single property names, numbers are integers. Requests of a transaction
  run one at a time, in order (\<open>run_request\<close> is one host step); the theorems about
  one method run its request on a transaction with no other pending request, which
  is the case when the caller awaits each promise. An open request waits while it
  is blocked; \<open>run_open\<close> leaves it waiting, so the host step can be retried once
  the other connections are closed. A migration callback is modelled by the schema
  changes it makes on the raw connection (\<open>IDB_World.schema_op\<close>); a change that
  throws aborts the upgrade, as an exception in the \<open>upgradeneeded\<close> listener
  does. No loop of the model needs fuel: the source has no loop, every recursion
  of the model but one is structural, and the host's loop \<open>run_all\<close> terminates
  by its measure, since each run removes the first pending request.

  \<^bold>\<open>Not modelled.\<close> The host's automatic commit of a transaction when its last
  request has completed is a separate host step (\<open>commit_txn\<close>), not tied to the
  event loop; \<open>versionchange\<close> events at other connections and the deletion of a
  newly created database whose first upgrade is aborted are not modelled (such a
  database stays at version 0 with no stores, which is what a later open observes
  as well); the \<open>options\<close> argument of \<open>transaction()\<close> (durability) has no
  observable effect in the model. \<open>src/lib/index.d.ts\<close> holds type declarations
  only.
\<close>

section \<open>Properties across the wrappers\<close>

text \<open>
  C10. Rollback: after \<open>put(v, k)\<close> in a started read-write transaction,
  \<open>abort()\<close> on the transaction wrapper succeeds, and \<open>get(k)\<close> in a new
  transaction over the store, opened with \<open>transaction([s])\<close> on the database
  wrapper, resolves with \<open>undefined\<close>: the write never reached the store.
\<close>

theorem abort_discards_put:
  assumes txn: "txn_at w t = Some tx" "tx_state tx = TxActive" "tx_mode tx = ReadWrite"
      "tx_started tx" "tx_pending tx = []"
    and conn: "\<not> cn_closed (w_conns w ! tx_conn tx)"
    and st: "store_of w t s = Some os" "map_of (rev (tx_backup tx)) s = Some os" "store_wf os"
      "os_keyPath os = None" "map_of (os_records os) k = None" "unique_ok os k v"
  shows "case txn_abort (PromisedIndexedDbTransaction t)
                (run_request t (snd (store_put (PromisedIndexedDbObjectStore (StoreHandle t s)) v (Some k) w))) of
           Inl e \<Rightarrow> False
         | Inr w2 \<Rightarrow>
             (case db_transaction (PromisedIndexedDb (tx_conn tx)) [s] None w2 of
                Inl e \<Rightarrow> False
              | Inr (PromisedIndexedDbTransaction t2, w3) \<Rightarrow>
                  w_proms (run_request t2 (snd (store_get (PromisedIndexedDbObjectStore (StoreHandle t2 s)) (QKey k) w3)))
                    ! length (w_proms w3) = Fulfilled (PJs JUndefined))"
proof -
  let ?x = "PromisedIndexedDbObjectStore (StoreHandle t s)"
  let ?w1 = "run_request t (snd (store_put ?x v (Some k) w))"
  let ?os1 = "(possibly_update_generator k os)\<lparr>os_records := ins_record k v (os_records os)\<rparr>"
  have ro: "tx_mode tx \<noteq> ReadOnly" using txn(3) by simp
  note put = store_put_run_state [OF txn(1,2) ro txn(5) st(1,4,6)]
  have ab: "txn_abort (PromisedIndexedDbTransaction t) ?w1 = Inr (abort_txn t ?w1)"
    using put(1) txn(2) by (simp add: txn_abort_def native_abort_def)
  let ?w2 = "abort_txn t ?w1"
  have "txn_stores ?w2 t = fold (\<lambda>(n, os) ss. AList.update n os ss) (tx_backup tx) (txn_stores ?w1 t)"
    by (rule abort_txn_stores [OF put(1) txn(5,4,3) put(2)])
  then have st2: "store_of ?w2 t s = Some os"
    using st(2) by (simp add: store_of_def map_of_fold_update map_add_def)
  have tx2: "txn_at ?w2 t = Some (tx\<lparr>tx_state := TxAborted\<rparr>)"
    by (rule abort_txn_state [OF put(1) txn(5)])
  have cs: "conn_stores ?w2 (tx_conn tx) = Some (txn_stores ?w2 t)"
    using conn_stores_txn [OF tx2 st2] by simp
  have "native_store False t s v (Some k) (snd (new_promise w)) =
          Inr (place_request t (NStore False s v (Some k)) (snd (new_promise w)))"
    using native_store_ok [of "snd (new_promise w)" t s os] st txn
    by (simp add: txn_active_def txn_writable_def)
  then have "w_conns ?w2 = w_conns w"
    by (simp add: store_put_promisify promisify_placed_conns)
  then have conn2: "\<not> cn_closed (w_conns ?w2 ! tx_conn tx)"
    using conn by simp
  let ?ss = "txn_stores ?w2 t"
  let ?w3 = "?w2\<lparr>w_txns := w_txns ?w2 @ [new_txn (tx_conn tx) [s] None]\<rparr>"
  have nt: "native_transaction (tx_conn tx) [s] None ?w2 = Inr (length (w_txns ?w2), ?w3)"
    using native_transaction_ok [OF cs conn2] st2 by (simp add: store_of_def)
  note t3 = new_txn_stores [OF cs, of "[s]" None]
  have "w_proms (run_request (length (w_txns ?w2))
          (snd (store_get (PromisedIndexedDbObjectStore (StoreHandle (length (w_txns ?w2)) s)) (QKey k) ?w3)))
          ! length (w_proms ?w3) = Fulfilled (PJs JUndefined)"
    by (rule store_get_undefined_run [OF t3(1) _ _ _ st(3,5)])
       (use st2 t3(2) in \<open>simp_all add: new_txn_def store_of_def\<close>)
  then show ?thesis
    by (simp add: ab db_transaction_def nt)
qed


theorem abort_discards_put_witness:
  "txn_at demo_world 0 = Some demo_txn \<and> tx_state demo_txn = TxActive \<and> tx_mode demo_txn = ReadWrite \<and>
   tx_started demo_txn \<and> tx_pending demo_txn = [] \<and>
   \<not> cn_closed (w_conns demo_world ! tx_conn demo_txn) \<and>
   store_of demo_world 0 ''items'' = Some items_store \<and>
   map_of (rev (tx_backup demo_txn)) ''items'' = Some items_store \<and> store_wf items_store \<and>
   os_keyPath items_store = None \<and> map_of (os_records items_store) (KNum 5) = None \<and>
   unique_ok items_store (KNum 5) (JStr ''cup'') \<and>
   (case txn_abort (PromisedIndexedDbTransaction 0)
           (run_request 0 (snd (store_put (PromisedIndexedDbObjectStore (StoreHandle 0 ''items'')) (JStr ''cup'') (Some (KNum 5)) demo_world))) of
      Inl e \<Rightarrow> False
    | Inr w2 \<Rightarrow>
        (case db_transaction (PromisedIndexedDb (tx_conn demo_txn)) [''items''] None w2 of
           Inl e \<Rightarrow> False
         | Inr (PromisedIndexedDbTransaction t2, w3) \<Rightarrow>
             w_proms (run_request t2 (snd (store_get (PromisedIndexedDbObjectStore (StoreHandle t2 ''items'')) (QKey (KNum 5)) w3)))
               ! length (w_proms w3) = Fulfilled (PJs JUndefined)))"
proof -
  have h: "txn_at demo_world 0 = Some demo_txn" "tx_state demo_txn = TxActive" "tx_mode demo_txn = ReadWrite"
    "tx_started demo_txn" "tx_pending demo_txn = []" "\<not> cn_closed (w_conns demo_world ! tx_conn demo_txn)"
    "store_of demo_world 0 ''items'' = Some items_store"
    "map_of (rev (tx_backup demo_txn)) ''items'' = Some items_store" "store_wf items_store"
    "os_keyPath items_store = None" "map_of (os_records items_store) (KNum 5) = None"
    "unique_ok items_store (KNum 5) (JStr ''cup'')"
    by code_simp+
  show ?thesis
    by (intro conjI h abort_discards_put [OF h])
qed



end
